theory Spec2Isabelle
  imports Complex_Main "HOL-Library.Sublist"
begin

section \<open>JavaScript values\<close>

text \<open>
  A JavaScript string is the list of its UTF-16 code units, each a natural number.
  Source literals are written with \<open>js\<close>, which maps an ASCII literal to its code units.
\<close>

type_synonym jsstring = "nat list"

definition js :: "string \<Rightarrow> jsstring" where
  "js s = map of_char s"

text \<open>
  A JavaScript number is NaN, an infinity or a finite binary64 value, kept as the
  rational it denotes. The sign of zero is not modelled.
\<close>

datatype jsnum = NaN | PInf | NInf | Fin rat

subsection \<open>Rounding to binary64\<close>

text \<open>
  A positive rational is brought to the form \<open>q * 2 ^ e\<close> with
  \<open>2 ^ 52 \<le> q < 2 ^ 53\<close>, or with \<open>e = -1074\<close> for a subnormal: \<open>scale_down\<close> halves,
  \<open>scale_up\<close> doubles. \<open>q\<close> is then rounded to the nearest integer, a tie to the even
  one, and a result of \<open>2 ^ 1024\<close> or more is infinity.
\<close>

function scale_down :: "rat \<Rightarrow> int \<Rightarrow> rat \<times> int" where
  "scale_down q e = (if 2 ^ 53 \<le> q then scale_down (q / 2) (e + 1) else (q, e))"
  by pat_completeness auto
termination
proof (relation "measure (\<lambda>(q, e). nat \<lfloor>q\<rfloor>)", goal_cases)
  case 1
  show ?case by simp
next
  case (2 q e)
  then have "(9007199254740992::rat) \<le> q" by simp
  then have q: "2 \<le> q" by linarith
  then have "q / 2 \<le> q - 1" by simp
  then have "\<lfloor>q / 2\<rfloor> \<le> \<lfloor>q - 1\<rfloor>" by (rule floor_mono)
  then have "\<lfloor>q / 2\<rfloor> < \<lfloor>q\<rfloor>" by simp
  moreover have "(2::int) \<le> \<lfloor>q\<rfloor>" using q by (simp add: le_floor_iff)
  ultimately show ?case by simp
qed

function scale_up :: "rat \<Rightarrow> int \<Rightarrow> rat \<times> int" where
  "scale_up q e = (if q < 2 ^ 52 \<and> - 1074 < e then scale_up (q * 2) (e - 1) else (q, e))"
  by pat_completeness auto
termination
  by (relation "measure (\<lambda>(q, e). nat (e + 1074))") auto

definition round_even :: "rat \<Rightarrow> int" where
  "round_even q =
     (let f = \<lfloor>q\<rfloor>; d = q - of_int f
      in if d < 1 / 2 then f else if 1 / 2 < d then f + 1 else if even f then f else f + 1)"

definition round64_pos :: "rat \<Rightarrow> jsnum" where
  "round64_pos q =
     (case scale_down q 0 of (q1, e1) \<Rightarrow>
        (case scale_up q1 e1 of (q2, e2) \<Rightarrow>
           (let v = of_int (round_even q2) * 2 powi e2
            in if 2 ^ 1024 \<le> v then PInf else Fin v)))"

text \<open>The binary64 value nearest to a rational, as the runtime computes it.\<close>

definition round64 :: "rat \<Rightarrow> jsnum" where
  "round64 q =
     (if q = 0 then Fin 0
      else if 0 < q then round64_pos q
      else (case round64_pos (- q) of Fin v \<Rightarrow> Fin (- v) | _ \<Rightarrow> NInf))"

declare scale_down.simps [simp del] scale_up.simps [simp del]

lemma floor_rat_numeral [simp]: "\<lfloor>numeral a / numeral b :: rat\<rfloor> = numeral a div numeral b"
  using floor_divide_of_int_eq [of "numeral a" "numeral b", where 'a = rat] by simp

text \<open>The definitions that evaluate the rounding of a given rational.\<close>

lemmas r64 = round64_def round64_pos_def round_even_def scale_down.simps scale_up.simps Let_def








text \<open>The relational operator \<open><\<close> on numbers: any comparison with NaN is false.\<close>

fun num_lt :: "jsnum \<Rightarrow> jsnum \<Rightarrow> bool" where
  "num_lt NaN _ = False"
| "num_lt _ NaN = False"
| "num_lt (Fin a) (Fin b) = (a < b)"
| "num_lt NInf NInf = False"
| "num_lt NInf _ = True"
| "num_lt _ NInf = False"
| "num_lt PInf _ = False"
| "num_lt (Fin a) PInf = True"

text \<open>
  Subtraction of a finite constant, as in \<open>targetTemperature - 0.5\<close>: the exact
  difference, rounded to binary64.
\<close>

fun num_sub :: "jsnum \<Rightarrow> rat \<Rightarrow> jsnum" where
  "num_sub (Fin a) d = round64 (a - d)"
| "num_sub x d = x"

text \<open>The values \<open>JSON.parse\<close> produces.\<close>

datatype json =
    JNull
  | JBool bool
  | JNum jsnum
  | JStr jsstring
  | JArr "json list"
  | JObj "(jsstring \<times> json) list"

text \<open>ToBoolean, on a value that may be \<open>undefined\<close> (\<open>None\<close>).\<close>

fun truthy :: "json \<Rightarrow> bool" where
  "truthy JNull = False"
| "truthy (JBool b) = b"
| "truthy (JNum n) = (n \<noteq> NaN \<and> n \<noteq> Fin 0)"
| "truthy (JStr s) = (s \<noteq> [])"
| "truthy (JArr _) = True"
| "truthy (JObj _) = True"

definition truthy_opt :: "json option \<Rightarrow> bool" where
  "truthy_opt v = (case v of None \<Rightarrow> False | Some x \<Rightarrow> truthy x)"

text \<open>\<open>v || d\<close>\<close>

definition or_default :: "json option \<Rightarrow> json \<Rightarrow> json" where
  "or_default v d = (case v of None \<Rightarrow> d | Some x \<Rightarrow> if truthy x then x else d)"

section \<open>Regular expressions\<close>

text \<open>
  The code units matched by \<open>\s\<close> (WhiteSpace and LineTerminator of ECMAScript).
\<close>

definition is_space :: "nat \<Rightarrow> bool" where
  "is_space c = (c \<in> set [9, 10, 11, 12, 13, 32, 160, 5760, 8232, 8233, 8239, 8287, 12288, 65279]
                 \<or> (8192 \<le> c \<and> c \<le> 8202))"

text \<open>The fragment of the regular-expression syntax that the plugin's pattern uses.\<close>

datatype rx =
    Lit nat              \<comment> \<open>one given code unit, as \<open>\{\<close>\<close>
  | NoneOf "nat list"    \<comment> \<open>a negated class, as \<open>[^{}]\<close>\<close>
  | Space                \<comment> \<open>\<open>\s\<close>\<close>
  | Seq rx rx            \<comment> \<open>concatenation\<close>
  | Star rx              \<comment> \<open>greedy \<open>*\<close>\<close>

text \<open>
  A backtracking matcher: \<open>rmatch r s\<close> lists, in the order in which the engine tries
  them, the remainders of \<open>s\<close> after each way of matching \<open>r\<close> at the start of \<open>s\<close>.
  A greedy star prefers one more iteration, and an iteration that consumes nothing is
  rejected, as ECMAScript has it.
\<close>

fun rmatch :: "rx \<Rightarrow> jsstring \<Rightarrow> jsstring list" where
  "rmatch (Lit c) s = (case s of [] \<Rightarrow> [] | x # xs \<Rightarrow> if x = c then [xs] else [])"
| "rmatch (NoneOf cs) s = (case s of [] \<Rightarrow> [] | x # xs \<Rightarrow> if x \<in> set cs then [] else [xs])"
| "rmatch Space s = (case s of [] \<Rightarrow> [] | x # xs \<Rightarrow> if is_space x then [xs] else [])"
| "rmatch (Seq a b) s = concat (map (rmatch b) (rmatch a s))"
| "rmatch (Star a) s =
     concat (map (\<lambda>t. if length t < length s then rmatch (Star a) t else []) (rmatch a s)) @ [s]"

text \<open>
  The pattern of \<open>parseATAGData\<close>:
  \<^verbatim>\<open>/(\{[^{}]*(?:\{[^{}]*\}[^{}]*)*\})\s*$/s\<close>.
  \<open>group1\<close> is the capturing group, \<open>\s*\<close> and the end anchor follow it.
\<close>

definition lbrace :: nat where "lbrace = 123"
definition rbrace :: nat where "rbrace = 125"

definition nobrace :: rx where
  "nobrace = Star (NoneOf [lbrace, rbrace])"

definition group1 :: rx where
  "group1 =
     Seq (Lit lbrace) (Seq nobrace
       (Seq (Star (Seq (Lit lbrace) (Seq nobrace (Seq (Lit rbrace) nobrace))))
            (Lit rbrace)))"

text \<open>
  One attempt at a fixed start: every way to match group 1, then \<open>\s*\<close>, then the end
  of the input (\<open>$\<close> without the \<open>m\<close> flag), in the order of the engine, each with the
  text of group 1. The attempt succeeds with the first of them.
\<close>

definition candidates :: "jsstring \<Rightarrow> jsstring list" where
  "candidates s =
     concat (map (\<lambda>r1. map (\<lambda>r2. take (length s - length r1) s)
                           (filter (\<lambda>r2. r2 = []) (rmatch (Star Space) r1)))
                 (rmatch group1 s))"

definition exec_at :: "jsstring \<Rightarrow> jsstring option" where
  "exec_at s = (case candidates s of [] \<Rightarrow> None | g # _ \<Rightarrow> Some g)"

text \<open>\<open>output.match(re)\<close> for a non-global pattern: the leftmost start that matches.\<close>

fun json_match :: "jsstring \<Rightarrow> jsstring option" where
  "json_match s =
     (case exec_at s of
        Some g \<Rightarrow> Some g
      | None \<Rightarrow> (case s of [] \<Rightarrow> None | _ # t \<Rightarrow> json_match t))"

text \<open>
  The equation of the star is unfolded by hand, on a given input: left to the simplifier
  it would be unfolded again under its own \<open>\<lambda>\<close>.
\<close>

declare rmatch.simps(5) [simp del]

lemma rmatch_Star_Nil: "rmatch (Star a) [] = [[]]"
  by (subst rmatch.simps(5)) simp

lemma rmatch_Star_Cons:
  "rmatch (Star a) (x # xs) =
     concat (map (\<lambda>t. if length t < Suc (length xs) then rmatch (Star a) t else [])
                 (rmatch a (x # xs))) @ [x # xs]"
  by (subst rmatch.simps(5)) simp

subsection \<open>The matcher and the language of a pattern\<close>

text \<open>The strings a pattern matches, and the iteration of a set of strings.\<close>

inductive_set star :: "jsstring set \<Rightarrow> jsstring set" for A where
  star_nil: "[] \<in> star A"
| star_step: "u \<in> A \<Longrightarrow> v \<in> star A \<Longrightarrow> u @ v \<in> star A"

fun lang :: "rx \<Rightarrow> jsstring set" where
  "lang (Lit c) = {[c]}"
| "lang (NoneOf cs) = {[x] | x. x \<notin> set cs}"
| "lang Space = {[x] | x. is_space x}"
| "lang (Seq a b) = {u @ v | u v. u \<in> lang a \<and> v \<in> lang b}"
| "lang (Star a) = star (lang a)"

lemma rmatch_star_sound:
  assumes a: "\<And>s t. t \<in> set (rmatch a s) \<Longrightarrow> \<exists>u. s = u @ t \<and> u \<in> lang a"
  shows "t \<in> set (rmatch (Star a) s) \<Longrightarrow> \<exists>u. s = u @ t \<and> u \<in> star (lang a)"
proof (induction "length s" arbitrary: s rule: less_induct)
  case less
  from less.prems
  consider "t = s" | t' where "t' \<in> set (rmatch a s)" "length t' < length s" "t \<in> set (rmatch (Star a) t')"
    by (subst (asm) rmatch.simps(5)) (auto split: if_splits)
  then show ?case
  proof cases
    case 1
    then show ?thesis using star_nil by auto
  next
    case 2
    from a [OF 2(1)] obtain u1 where u1: "s = u1 @ t'" "u1 \<in> lang a" by blast
    from less.hyps [OF 2(2) 2(3)] obtain u2 where u2: "t' = u2 @ t" "u2 \<in> star (lang a)" by blast
    have "s = (u1 @ u2) @ t" using u1 u2 by simp
    moreover have "u1 @ u2 \<in> star (lang a)" using u1 u2 by (auto intro: star_step)
    ultimately show ?thesis by blast
  qed
qed

lemma rmatch_star_complete:
  assumes a: "\<And>s t u. s = u @ t \<Longrightarrow> u \<in> lang a \<Longrightarrow> t \<in> set (rmatch a s)"
  shows "u \<in> star (lang a) \<Longrightarrow> t \<in> set (rmatch (Star a) (u @ t))"
proof (induction rule: star.induct)
  case star_nil
  show ?case by (subst rmatch.simps(5)) simp
next
  case (star_step u1 v)
  show ?case
  proof (cases "u1 = []")
    case True
    then show ?thesis using star_step by simp
  next
    case False
    have 1: "v @ t \<in> set (rmatch a ((u1 @ v) @ t))"
      using a [of "(u1 @ v) @ t" u1 "v @ t"] star_step(1) by simp
    have 2: "length (v @ t) < length ((u1 @ v) @ t)" using False by simp
    show ?thesis
      using 1 2 star_step(3) by (subst rmatch.simps(5)) force
  qed
qed

lemma rmatch_lang: "t \<in> set (rmatch r s) \<longleftrightarrow> (\<exists>u. s = u @ t \<and> u \<in> lang r)"
proof (induction r arbitrary: s t)
  case (Lit c)
  show ?case by (cases s) auto
next
  case (NoneOf cs)
  show ?case by (cases s) auto
next
  case Space
  show ?case by (cases s) auto
next
  case (Seq a b)
  show ?case
  proof
    assume "t \<in> set (rmatch (Seq a b) s)"
    then obtain t' where "t' \<in> set (rmatch a s)" "t \<in> set (rmatch b t')" by auto
    then obtain u v where "s = u @ t'" "u \<in> lang a" "t' = v @ t" "v \<in> lang b"
      using Seq by blast
    then have "s = (u @ v) @ t \<and> u @ v \<in> lang (Seq a b)" by auto
    then show "\<exists>u. s = u @ t \<and> u \<in> lang (Seq a b)" by blast
  next
    assume "\<exists>u. s = u @ t \<and> u \<in> lang (Seq a b)"
    then obtain u v where uv: "s = (u @ v) @ t" "u \<in> lang a" "v \<in> lang b" by auto
    have "v @ t \<in> set (rmatch a s)" using uv Seq.IH(1) [of "v @ t" s] by auto
    moreover have "t \<in> set (rmatch b (v @ t))" using uv Seq.IH(2) [of t "v @ t"] by auto
    ultimately show "t \<in> set (rmatch (Seq a b) s)" by auto
  qed
next
  case (Star a)
  show ?case
  proof
    assume "t \<in> set (rmatch (Star a) s)"
    then show "\<exists>u. s = u @ t \<and> u \<in> lang (Star a)"
      using rmatch_star_sound [of a t s] Star by auto
  next
    assume "\<exists>u. s = u @ t \<and> u \<in> lang (Star a)"
    then show "t \<in> set (rmatch (Star a) s)"
      using rmatch_star_complete [of a _ t] Star by auto
  qed
qed

section \<open>\<open>JSON.parse\<close>\<close>

text \<open>
  \<open>JSON.parse\<close> is a built-in of the runtime. It is modelled by a recursive-descent
  parser of the JSON grammar (ECMA-404); a number is the binary64 value nearest to its
  decimal. \<open>None\<close> stands for the SyntaxError it throws.
\<close>

definition is_json_ws :: "nat \<Rightarrow> bool" where
  "is_json_ws c = (c = 32 \<or> c = 9 \<or> c = 10 \<or> c = 13)"

definition skip_ws :: "jsstring \<Rightarrow> jsstring" where
  "skip_ws s = dropWhile is_json_ws s"

definition expect :: "nat \<Rightarrow> jsstring \<Rightarrow> jsstring option" where
  "expect c s = (case s of [] \<Rightarrow> None | x # r \<Rightarrow> if x = c then Some r else None)"

definition is_digit :: "nat \<Rightarrow> bool" where
  "is_digit c = (48 \<le> c \<and> c \<le> 57)"

definition digits_val :: "jsstring \<Rightarrow> nat" where
  "digits_val ds = foldl (\<lambda>acc d. 10 * acc + (d - 48)) 0 ds"

text \<open>The value of the decimal \<open>ip.fp\<close> times ten to the power \<open>e\<close>.\<close>

definition decimal :: "bool \<Rightarrow> jsstring \<Rightarrow> jsstring \<Rightarrow> int \<Rightarrow> rat" where
  "decimal neg ip fp e =
     (let m = of_nat (digits_val ip) + of_nat (digits_val fp) / 10 ^ length fp;
          v = (if 0 \<le> e then m * 10 ^ nat e else m / 10 ^ nat (- e))
      in if neg then - v else v)"

text \<open>An exponent part \<open>[eE][+-]?[0-9]+\<close> at the start of the input, if there is one.\<close>

definition exp_part :: "jsstring \<Rightarrow> (int \<times> jsstring) option" where
  "exp_part s =
     (case s of [] \<Rightarrow> None
      | x # r \<Rightarrow>
          if x = 101 \<or> x = 69 then
            (let neg = (case r of [] \<Rightarrow> False | y # _ \<Rightarrow> y = 45);
                 r1 = (case r of [] \<Rightarrow> [] | y # r' \<Rightarrow> if y = 43 \<or> y = 45 then r' else r);
                 ds = takeWhile is_digit r1
             in if ds = [] then None
                else Some (if neg then - int (digits_val ds) else int (digits_val ds),
                           dropWhile is_digit r1))
          else None)"

text \<open>A JSON number: \<open>-?(0|[1-9][0-9]*)(\.[0-9]+)?([eE][+-]?[0-9]+)?\<close>.\<close>

definition json_number :: "jsstring \<Rightarrow> (rat \<times> jsstring) option" where
  "json_number s =
     (let neg = (case s of [] \<Rightarrow> False | x # _ \<Rightarrow> x = 45);
          s1 = (if neg then tl s else s);
          ip = takeWhile is_digit s1;
          s2 = dropWhile is_digit s1
      in if ip = [] \<or> (1 < length ip \<and> hd ip = 48) then None
         else
           (let dot = (case s2 of [] \<Rightarrow> False | x # _ \<Rightarrow> x = 46);
                fp = (if dot then takeWhile is_digit (tl s2) else []);
                s3 = (if dot then dropWhile is_digit (tl s2) else s2)
            in if dot \<and> fp = [] then None
               else
                 (case s3 of
                    [] \<Rightarrow> Some (decimal neg ip fp 0, s3)
                  | x # _ \<Rightarrow>
                      if x = 101 \<or> x = 69 then
                        (case exp_part s3 of
                           None \<Rightarrow> None
                         | Some (e, s4) \<Rightarrow> Some (decimal neg ip fp e, s4))
                      else Some (decimal neg ip fp 0, s3))))"

definition hex_val :: "nat \<Rightarrow> nat option" where
  "hex_val c =
     (if 48 \<le> c \<and> c \<le> 57 then Some (c - 48)
      else if 65 \<le> c \<and> c \<le> 70 then Some (c - 55)
      else if 97 \<le> c \<and> c \<le> 102 then Some (c - 87)
      else None)"

text \<open>The body of a JSON string, after the opening quote, up to the closing one.\<close>

fun str_body :: "jsstring \<Rightarrow> (jsstring \<times> jsstring) option" where
  "str_body [] = None"
| "str_body (c # cs) =
     (if c = 34 then Some ([], cs)
      else if c < 32 then None
      else if c = 92 then
        (case cs of
           [] \<Rightarrow> None
         | e # r \<Rightarrow>
             if e = 117 then
               (case r of
                  a # b # c' # d # r' \<Rightarrow>
                    (case (hex_val a, hex_val b, hex_val c', hex_val d) of
                       (Some h3, Some h2, Some h1, Some h0) \<Rightarrow>
                         map_option (apfst (Cons (4096 * h3 + 256 * h2 + 16 * h1 + h0))) (str_body r')
                     | _ \<Rightarrow> None)
                | _ \<Rightarrow> None)
             else
               (case (if e = 34 \<or> e = 92 \<or> e = 47 then Some e
                      else if e = 98 then Some 8
                      else if e = 102 then Some 12
                      else if e = 110 then Some 10
                      else if e = 114 then Some 13
                      else if e = 116 then Some 9
                      else None) of
                  None \<Rightarrow> None
                | Some u \<Rightarrow> map_option (apfst (Cons u)) (str_body r)))
      else map_option (apfst (Cons c)) (str_body cs))"

definition literal_at :: "string \<Rightarrow> jsstring \<Rightarrow> jsstring option" where
  "literal_at w s = (if take (length w) s = js w then Some (drop (length w) s) else None)"

lemma str_body_shorter: "str_body s = Some (k, r) \<Longrightarrow> length r < length s"
proof (induction s arbitrary: k r rule: str_body.induct)
  case 1
  then show ?case by simp
next
  case (2 c cs)
  then show ?case
    by (fastforce split: if_splits list.splits option.splits)
qed

lemma skip_ws_length: "length (skip_ws s) \<le> length s"
  by (simp add: skip_ws_def length_dropWhile_le)

lemma expect_shorter: "expect c s = Some r \<Longrightarrow> length r < length s"
  by (auto simp: expect_def split: list.splits if_splits)

text \<open>
  Values, array elements (after \<open>[\<close>) and object members (after \<open>{\<close>). Each returns
  what it parsed and the rest of the input. The rest is always shorter than the input;
  the tests on the lengths make that visible to the termination proof.
\<close>

function (sequential) parse_value :: "jsstring \<Rightarrow> (json \<times> jsstring) option"
  and parse_elements :: "jsstring \<Rightarrow> (json list \<times> jsstring) option"
  and parse_members :: "jsstring \<Rightarrow> ((jsstring \<times> json) list \<times> jsstring) option"
where
  "parse_value s =
     (case skip_ws s of
        [] \<Rightarrow> None
      | c # r \<Rightarrow>
          if c = 123 then
            (case expect 125 (skip_ws r) of
               Some r' \<Rightarrow> Some (JObj [], r')
             | None \<Rightarrow> map_option (apfst JObj) (parse_members r))
          else if c = 91 then
            (case expect 93 (skip_ws r) of
               Some r' \<Rightarrow> Some (JArr [], r')
             | None \<Rightarrow> map_option (apfst JArr) (parse_elements r))
          else if c = 34 then map_option (apfst JStr) (str_body r)
          else if c = 116 then map_option (Pair (JBool True)) (literal_at ''true'' (c # r))
          else if c = 102 then map_option (Pair (JBool False)) (literal_at ''false'' (c # r))
          else if c = 110 then map_option (Pair JNull) (literal_at ''null'' (c # r))
          else map_option (apfst (\<lambda>q. JNum (round64 q))) (json_number (c # r)))"
| "parse_elements s =
     (case parse_value s of
        None \<Rightarrow> None
      | Some (v, r) \<Rightarrow>
          if length r < length s then
            (case skip_ws r of
               [] \<Rightarrow> None
             | c # r' \<Rightarrow>
                 if c = 44 then map_option (apfst (Cons v)) (parse_elements r')
                 else if c = 93 then Some ([v], r')
                 else None)
          else None)"
| "parse_members s =
     (case expect 34 (skip_ws s) of
        None \<Rightarrow> None
      | Some r0 \<Rightarrow>
          (case str_body r0 of
             None \<Rightarrow> None
           | Some (k, r1) \<Rightarrow>
               (case expect 58 (skip_ws r1) of
                  None \<Rightarrow> None
                | Some r2 \<Rightarrow>
                    (case parse_value r2 of
                       None \<Rightarrow> None
                     | Some (v, r3) \<Rightarrow>
                         if length r3 < length s then
                           (case skip_ws r3 of
                              [] \<Rightarrow> None
                            | c # r4 \<Rightarrow>
                                if c = 44 then map_option (apfst (Cons (k, v))) (parse_members r4)
                                else if c = 125 then Some ([(k, v)], r4)
                                else None)
                         else None))))"
  by pat_completeness auto
termination
proof (relation "measure (\<lambda>x. case x of
           Inl s \<Rightarrow> 2 * length s
         | Inr (Inl s) \<Rightarrow> 2 * length s + 1
         | Inr (Inr s) \<Rightarrow> 2 * length s + 1)", goal_cases)
  case 1
  then show ?case by simp
next
  case (2 s c r)
  have "length (c # r) \<le> length s"
    using 2(1) skip_ws_length [of s] by simp
  then show ?case by simp
next
  case (3 s c r)
  have "length (c # r) \<le> length s"
    using 3(1) skip_ws_length [of s] by simp
  then show ?case by simp
next
  case (4 s)
  then show ?case by simp
next
  case (5 s x v r c r')
  have "length (c # r') \<le> length r"
    using 5 skip_ws_length [of r] by simp
  with 5 show ?case by simp
next
  case (6 s r0 x k r1 r2)
  have "length r0 < length s"
    using 6(1) expect_shorter skip_ws_length [of s] by fastforce
  moreover have "length r1 < length r0"
    using 6(2,3) str_body_shorter [of r0 k r1] by simp
  moreover have "length r2 < length r1"
    using 6 expect_shorter skip_ws_length [of r1] by fastforce
  ultimately show ?case by simp
next
  case (7 s r0 x k r1 r2 y v r3 c r4)
  have "length (c # r4) \<le> length r3"
    using 7 skip_ws_length [of r3] by simp
  with 7 show ?case by simp
qed

text \<open>\<open>JSON.parse(text)\<close>: one value, with nothing but white space after it.\<close>

definition JSON_parse :: "jsstring \<Rightarrow> json option" where
  "JSON_parse text =
     (case parse_value text of
        None \<Rightarrow> None
      | Some (v, r) \<Rightarrow> if skip_ws r = [] then Some v else None)"

text \<open>
  The tests on the lengths never fail: whatever one of the three functions returns as
  the rest is shorter than its input, so \<open>None\<close> is always a syntax error.
\<close>

lemma literal_at_shorter:
  assumes "literal_at w s = Some r" "w \<noteq> []"
  shows "length r < length s"
proof -
  from assms(1) have t: "take (length w) s = js w" and r: "r = drop (length w) s"
    by (auto simp: literal_at_def split: if_splits)
  from t have "length (take (length w) s) = length w" by (simp add: js_def)
  then have "length w \<le> length s" by simp
  then show ?thesis using r assms(2) by (cases w) simp_all
qed

lemma span_length: "length (takeWhile P s) + length (dropWhile P s) = length s"
  by (metis length_append takeWhile_dropWhile_id)

lemma exp_part_shorter: "exp_part s = Some (e, r) \<Longrightarrow> length r < length s"
  by (auto simp: exp_part_def Let_def split: list.splits if_splits
      intro: le_less_trans [OF length_dropWhile_le])

lemma json_number_shorter:
  assumes "json_number s = Some (q, r)"
  shows "length r < length s"
proof -
  define s1 where "s1 = (if (case s of [] \<Rightarrow> False | x # _ \<Rightarrow> x = 45) then tl s else s)"
  define s2 where "s2 = dropWhile is_digit s1"
  define s3 where "s3 = (if (case s2 of [] \<Rightarrow> False | x # _ \<Rightarrow> x = 46)
                         then dropWhile is_digit (tl s2) else s2)"
  have 1: "length s1 \<le> length s" by (simp add: s1_def)

  have 3: "length s3 \<le> length s2"
    by (auto simp: s3_def intro: le_trans [OF length_dropWhile_le])
  have d: "json_number s =
      (if takeWhile is_digit s1 = [] \<or> (1 < length (takeWhile is_digit s1) \<and> hd (takeWhile is_digit s1) = 48)
       then None
       else if (case s2 of [] \<Rightarrow> False | x # _ \<Rightarrow> x = 46) \<and>
               (if (case s2 of [] \<Rightarrow> False | x # _ \<Rightarrow> x = 46) then takeWhile is_digit (tl s2) else []) = []
       then None
       else (case s3 of
               [] \<Rightarrow> Some (decimal (case s of [] \<Rightarrow> False | x # _ \<Rightarrow> x = 45) (takeWhile is_digit s1)
                             (if (case s2 of [] \<Rightarrow> False | x # _ \<Rightarrow> x = 46) then takeWhile is_digit (tl s2) else []) 0, s3)
             | x # _ \<Rightarrow>
                 if x = 101 \<or> x = 69 then
                   (case exp_part s3 of
                      None \<Rightarrow> None
                    | Some (e, s4) \<Rightarrow> Some (decimal (case s of [] \<Rightarrow> False | x # _ \<Rightarrow> x = 45) (takeWhile is_digit s1)
                             (if (case s2 of [] \<Rightarrow> False | x # _ \<Rightarrow> x = 46) then takeWhile is_digit (tl s2) else []) e, s4))
                 else Some (decimal (case s of [] \<Rightarrow> False | x # _ \<Rightarrow> x = 45) (takeWhile is_digit s1)
                             (if (case s2 of [] \<Rightarrow> False | x # _ \<Rightarrow> x = 46) then takeWhile is_digit (tl s2) else []) 0, s3)))"
    unfolding json_number_def Let_def s1_def s2_def s3_def ..
  from assms have "r = s3 \<or> (\<exists>e. exp_part s3 = Some (e, r))"
    unfolding d by (cases s3; cases "exp_part s3") (auto split: if_splits)
  then have "length r \<le> length s3" using exp_part_shorter by (auto simp: less_imp_le)
  moreover from assms have "takeWhile is_digit s1 \<noteq> []"
    unfolding d by (auto split: if_splits)
  then have "0 < length (takeWhile is_digit s1)" by simp
  then have 2: "length s2 < length s1"
    using span_length [of is_digit s1] unfolding s2_def by linarith
  ultimately have "length r \<le> length s3" "length s2 < length s1" by simp_all
  then show ?thesis using 1 3 by simp
qed

lemma parse_shorter:
  "(\<forall>v r. parse_value s = Some (v, r) \<longrightarrow> length r < length s)"
  "(\<forall>vs r. parse_elements s1 = Some (vs, r) \<longrightarrow> length r < length s1)"
  "(\<forall>kvs r. parse_members s2 = Some (kvs, r) \<longrightarrow> length r < length s2)"
proof (induction s and s1 and s2 rule: parse_value_parse_elements_parse_members.induct)
  case (1 s)
  show ?case
  proof (intro allI impI)
    fix v r
    assume a: "parse_value s = Some (v, r)"
    then obtain c t where ct: "skip_ws s = c # t"
      by (subst (asm) parse_value.simps) (auto simp del: parse_value.simps parse_elements.simps parse_members.simps split: list.splits)
    have len: "length (c # t) \<le> length s" using skip_ws_length [of s] ct by simp
    have eq: "parse_value s =
          (if c = 123 then
            (case expect 125 (skip_ws t) of
               Some r' \<Rightarrow> Some (JObj [], r')
             | None \<Rightarrow> map_option (apfst JObj) (parse_members t))
          else if c = 91 then
            (case expect 93 (skip_ws t) of
               Some r' \<Rightarrow> Some (JArr [], r')
             | None \<Rightarrow> map_option (apfst JArr) (parse_elements t))
          else if c = 34 then map_option (apfst JStr) (str_body t)
          else if c = 116 then map_option (Pair (JBool True)) (literal_at ''true'' (c # t))
          else if c = 102 then map_option (Pair (JBool False)) (literal_at ''false'' (c # t))
          else if c = 110 then map_option (Pair JNull) (literal_at ''null'' (c # t))
          else map_option (apfst (\<lambda>q. JNum (round64 q))) (json_number (c # t)))"
      by (subst parse_value.simps) (simp add: ct del: parse_value.simps parse_elements.simps parse_members.simps)
    consider (obj) "c = 123" | (arr) "c \<noteq> 123" "c = 91" | (str) "c \<noteq> 123" "c \<noteq> 91" "c = 34"
      | (lit) "c \<noteq> 123" "c \<noteq> 91" "c \<noteq> 34" "c = 116 \<or> c = 102 \<or> c = 110"
      | (num) "c \<noteq> 123" "c \<noteq> 91" "c \<noteq> 34" "c \<noteq> 116" "c \<noteq> 102" "c \<noteq> 110"
      by blast
    then have "length r < length (c # t)"
    proof cases
      case obj
      show ?thesis
      proof (cases "expect 125 (skip_ws t)")
        case None
        then obtain kvs where "parse_members t = Some (kvs, r)"
          using a obj unfolding eq by (auto simp del: parse_value.simps parse_elements.simps parse_members.simps)
        then have "length r < length t" using 1(1) [OF ct obj None] by blast
        then show ?thesis by simp
      next
        case (Some r')
        then have "r = r'" using a obj unfolding eq by (simp del: parse_value.simps parse_elements.simps parse_members.simps)
        then have "length r < length (skip_ws t)" using expect_shorter [OF Some] by simp
        then show ?thesis using skip_ws_length [of t] by simp
      qed
    next
      case arr
      show ?thesis
      proof (cases "expect 93 (skip_ws t)")
        case None
        then obtain vs where "parse_elements t = Some (vs, r)"
          using a arr unfolding eq by (auto simp del: parse_value.simps parse_elements.simps parse_members.simps)
        then have "length r < length t" using 1(2) [OF ct arr None] by blast
        then show ?thesis by simp
      next
        case (Some r')
        then have "r = r'" using a arr unfolding eq by (simp del: parse_value.simps parse_elements.simps parse_members.simps)
        then have "length r < length (skip_ws t)" using expect_shorter [OF Some] by simp
        then show ?thesis using skip_ws_length [of t] by simp
      qed
    next
      case str
      then obtain k where "str_body t = Some (k, r)" using a unfolding eq by (auto simp del: parse_value.simps parse_elements.simps parse_members.simps)
      then show ?thesis using str_body_shorter by fastforce
    next
      case lit
      then obtain w where "literal_at w (c # t) = Some r" "w \<noteq> []"
        using a unfolding eq by (auto simp del: parse_value.simps parse_elements.simps parse_members.simps)
      then show ?thesis using literal_at_shorter by fastforce
    next
      case num
      then obtain q where "json_number (c # t) = Some (q, r)" using a unfolding eq by (auto simp del: parse_value.simps parse_elements.simps parse_members.simps)
      then show ?thesis using json_number_shorter by fastforce
    qed
    then show "length r < length s" using len by simp
  qed
next
  case (2 s)
  show ?case
  proof (intro allI impI)
    fix vs r
    assume a: "parse_elements s = Some (vs, r)"
    then obtain v r0 where v: "parse_value s = Some (v, r0)" "length r0 < length s"
      by (subst (asm) parse_elements.simps) (auto simp del: parse_value.simps parse_elements.simps parse_members.simps split: option.splits if_splits)
    from a v obtain c r' where c: "skip_ws r0 = c # r'"
      by (subst (asm) parse_elements.simps) (auto simp del: parse_value.simps parse_elements.simps parse_members.simps split: list.splits)
    have len: "length (c # r') \<le> length r0" using skip_ws_length [of r0] c by simp
    have "length r \<le> length r'"
      using a v c 2(2) [of "(v, r0)" v r0 c r']
      by (subst (asm) parse_elements.simps) (auto simp: less_imp_le simp del: parse_value.simps parse_elements.simps parse_members.simps split: if_splits)
    then show "length r < length s" using len v(2) by simp
  qed
next
  case (3 s)
  show ?case
  proof (intro allI impI)
    fix kvs r
    assume a: "parse_members s = Some (kvs, r)"
    then obtain r0 k r1 r2 v r3 c r4 where
      s: "expect 34 (skip_ws s) = Some r0" "str_body r0 = Some (k, r1)"
         "expect 58 (skip_ws r1) = Some r2" "parse_value r2 = Some (v, r3)"
         "length r3 < length s" "skip_ws r3 = c # r4"
      by (subst (asm) parse_members.simps) (auto simp del: parse_value.simps parse_elements.simps parse_members.simps split: option.splits if_splits list.splits)
    have len: "length (c # r4) \<le> length r3" using skip_ws_length [of r3] s(6) by simp
    have "length r \<le> length r4"
      using a s 3(2) [of r0 "(k, r1)" k r1 r2 "(v, r3)" v r3 c r4]
      by (subst (asm) parse_members.simps) (auto simp: less_imp_le simp del: parse_value.simps parse_elements.simps parse_members.simps split: if_splits)
    then show "length r < length s" using len s(5) by simp
  qed
qed

section \<open>\<open>parseFloat\<close> and property access\<close>

text \<open>
  \<open>parseFloat(string)\<close> on a string: leading white space is dropped and the longest
  prefix that is a decimal literal is read (a sign, then \<open>Infinity\<close> or digits with an
  optional fraction and exponent) and rounded to binary64; without such a prefix the
  result is NaN.
\<close>

definition str_to_float :: "jsstring \<Rightarrow> jsnum" where
  "str_to_float s =
     (let t = dropWhile is_space s;
          neg = (case t of [] \<Rightarrow> False | x # _ \<Rightarrow> x = 45);
          t1 = (case t of [] \<Rightarrow> [] | x # r \<Rightarrow> if x = 43 \<or> x = 45 then r else t)
      in if take 8 t1 = js ''Infinity'' then (if neg then NInf else PInf)
         else
           (let ip = takeWhile is_digit t1;
                t2 = dropWhile is_digit t1;
                dot = (case t2 of [] \<Rightarrow> False | x # _ \<Rightarrow> x = 46);
                fp = (if dot then takeWhile is_digit (tl t2) else []);
                t3 = (if dot then dropWhile is_digit (tl t2) else t2)
            in if ip = [] \<and> fp = [] then NaN
               else round64 (decimal neg ip fp (case exp_part t3 of None \<Rightarrow> 0 | Some (e, _) \<Rightarrow> e))))"

text \<open>
  \<open>parseFloat\<close> first converts its argument to a string (ToString). For a value built
  by \<open>JSON.parse\<close> that conversion throws a TypeError exactly when it reaches an object
  with an own property \<open>toString\<close>: the property shadows \<open>Object.prototype.toString\<close>
  and is not callable, and \<open>valueOf\<close> returns the object itself. An array is converted
  by joining the strings of its elements with commas, so every element is converted.
\<close>

fun to_string_throws :: "json \<Rightarrow> bool" where
  "to_string_throws (JObj kvs) = (js ''toString'' \<in> set (map fst kvs))"
| "to_string_throws (JArr xs) = (\<exists>x \<in> set xs. to_string_throws x)"
| "to_string_throws _ = False"

text \<open>
  The number read from the string of a value whose conversion does not throw. A number
  prints as a literal that reads back as itself; \<open>null\<close>, \<open>true\<close>, \<open>false\<close> and
  \<open>[object Object]\<close> have no numeric prefix; of an array only the first element counts,
  since the comma after it ends every numeric prefix.
\<close>

fun float_of :: "json \<Rightarrow> jsnum" where
  "float_of JNull = NaN"
| "float_of (JBool _) = NaN"
| "float_of (JNum n) = n"
| "float_of (JStr s) = str_to_float s"
| "float_of (JArr []) = NaN"
| "float_of (JArr (x # _)) = float_of x"
| "float_of (JObj _) = NaN"

datatype hap_status = SERVICE_COMMUNICATION_FAILURE

datatype error =
    HostRequired                          \<comment> \<open>\<open>Host is required for local mode\<close>\<close>
  | CredentialsRequired                   \<comment> \<open>\<open>Email and password are required for remote mode\<close>\<close>
  | CommandFailed "int option" jsstring   \<comment> \<open>\<open>Command failed with code ${code}: ${errorOutput}\<close>\<close>
  | ExecuteFailed jsstring                \<comment> \<open>\<open>Failed to execute command: ${error.message}\<close>\<close>
  | NoJSONData                            \<comment> \<open>\<open>No JSON data found in output\<close>\<close>
  | SyntaxError                           \<comment> \<open>thrown by \<open>JSON.parse\<close>\<close>
  | TypeError                             \<comment> \<open>thrown by the runtime\<close>
  | HapStatusError hap_status

definition parseFloat :: "json \<Rightarrow> error + jsnum" where
  "parseFloat v = (if to_string_throws v then Inl TypeError else Inr (float_of v))"

text \<open>
  The own properties of \<open>data\<close>, for the accesses \<open>data.roomTemperature\<close> and the like:
  reading a property of \<open>null\<close> throws (\<open>None\<close>), and a number, a string, a boolean or
  an array has none of the names the plugin reads. Of a repeated key \<open>JSON.parse\<close>
  keeps the last value. None of the names read is inherited from \<open>Object.prototype\<close>, so
  \<open>data.k !== undefined\<close> holds exactly when \<open>field kvs k\<close> is some value.
\<close>

fun props_of :: "json \<Rightarrow> (jsstring \<times> json) list option" where
  "props_of (JObj kvs) = Some kvs"
| "props_of JNull = None"
| "props_of _ = Some []"

definition field :: "(jsstring \<times> json) list \<Rightarrow> string \<Rightarrow> json option" where
  "field kvs k = map_of (rev kvs) (js k)"

section \<open>The accessory\<close>

datatype heating_state = OFF | HEAT

datatype target_state = TargetOFF | TargetHEAT | TargetCOOL | TargetAUTO

datatype leak = LEAK_NOT_DETECTED | LEAK_DETECTED

text \<open>What the plugin does to the outside world, in the order in which it does it.\<close>

datatype level = Debug | Info | Warn | Err

datatype arg = Flag string | Val "json option" | NumStr jsnum

datatype message =
    JarNotFound                   \<comment> \<open>\<open>ATAG One JAR file not found at ...\<close>\<close>
  | DownloadHint                  \<comment> \<open>\<open>Please download it from ...\<close>\<close>
  | Initialized
  | GettingLeak jsnum bool
  | SettingTargetTemperature jsnum
  | SettingTargetState target_state
  | UpdateSkipped                 \<comment> \<open>\<open>Update already in progress, skipping\<close>\<close>
  | Executing "arg list"
  | UpdateFailed error            \<comment> \<open>\<open>Failed to update ATAG data:\<close>\<close>
  | ParseFailed error             \<comment> \<open>\<open>Failed to parse ATAG data:\<close>\<close>
  | RawOutput jsstring
  | UpdatedData jsnum jsnum heating_state
  | SetTargetFailed error         \<comment> \<open>\<open>Failed to set target temperature:\<close>\<close>

datatype service = Thermostat | OutsideSensor | PressureSensor | DHWSensor

datatype characteristic =
  CurrentTemperature | TargetTemperature | CurrentHeatingCoolingState | LeakDetected

datatype cvalue = Num jsnum | Heating heating_state | Leak leak

datatype event =
    Log level message
  | Spawn "arg list"                           \<comment> \<open>\<open>spawn(this.javaPath, args, ...)\<close>\<close>
  | Publish service characteristic cvalue      \<comment> \<open>\<open>updateCharacteristic\<close>\<close>
  | SetTimeout nat
  | SetInterval json
  | Fault error                                \<comment> \<open>an error thrown to the host framework\<close>

text \<open>A spawned process that has not finished yet, with the call that waits for it.\<close>

datatype job = PollJob | SetJob jsnum

text \<open>
  How a spawned process ends: its \<open>close\<close> event with the exit code (none when a
  signal killed it), what it wrote to stdout and to stderr; or its \<open>error\<close> event.
\<close>

datatype child_result = Closed "int option" jsstring jsstring | ChildError jsstring

text \<open>The \<open>config\<close> object; \<open>None\<close> is a property that is not there.\<close>

record config =
  cfg_name :: "json option"
  cfg_mode :: "json option"
  cfg_host :: "json option"
  cfg_email :: "json option"
  cfg_password :: "json option"
  cfg_jarPath :: "json option"
  cfg_javaPath :: "json option"
  cfg_pollInterval :: "json option"
  cfg_timeout :: "json option"
  cfg_temperatureDisplayUnits :: "json option"
  cfg_minTemp :: "json option"
  cfg_maxTemp :: "json option"
  cfg_exposeOutsideTemperature :: "json option"
  cfg_exposeWaterPressure :: "json option"
  cfg_exposeDHWTemperature :: "json option"

text \<open>
  The fields of \<open>this\<close>, followed by the two parts of the environment the claims are
  about: the processes in flight and the trace of effects.
\<close>

record accessory =
  name :: json
  mode :: json
  host :: "json option"
  email :: "json option"
  password :: "json option"
  jarPath :: json
  javaPath :: json
  pollInterval :: json
  timeout :: json
  temperatureDisplayUnits :: json
  minTemp :: json
  maxTemp :: json
  currentTemperature :: jsnum
  targetTemperature :: jsnum
  currentHeatingCoolingState :: heating_state
  targetHeatingCoolingState :: target_state
  isUpdating :: bool
  outsideTemperature :: jsnum
  dhwTemperature :: jsnum
  waterPressure :: jsnum
  flameActive :: bool
  outsideTemperatureService :: bool
  waterPressureService :: bool
  dhwTemperatureService :: bool
  inflight :: "job list"
  trace :: "event list"

definition emit :: "event list \<Rightarrow> accessory \<Rightarrow> accessory" where
  "emit es s = s\<lparr>trace := trace s @ es\<rparr>"

definition log :: "level \<Rightarrow> message \<Rightarrow> accessory \<Rightarrow> accessory" where
  "log l m s = emit [Log l m] s"

text \<open>A call that either returns or throws, with the state it leaves behind.\<close>

datatype outcome = Returned accessory | Threw error accessory

definition and_then :: "outcome \<Rightarrow> (accessory \<Rightarrow> outcome) \<Rightarrow> outcome" where
  "and_then r f = (case r of Returned s \<Rightarrow> f s | Threw e s \<Rightarrow> Threw e s)"

text \<open>The state an outcome leaves behind.\<close>

fun state_of :: "outcome \<Rightarrow> accessory" where
  "state_of (Returned s) = s"
| "state_of (Threw e s) = s"

subsection \<open>The constructor\<close>

text \<open>
  The configuration with its defaults, the two validations, the initial snapshot, the
  optional services, and \<open>startPolling\<close>. \<open>jar_exists\<close> is the answer of
  \<open>fs.existsSync(this.jarPath)\<close>. The constructor's calls into the host framework
  (the creation of the services) are not modelled.
\<close>

definition low_pressure :: "accessory \<Rightarrow> bool" where
  "low_pressure s = num_lt (waterPressure s) (Fin 1)"

definition leak_value :: "accessory \<Rightarrow> leak" where
  "leak_value s = (if low_pressure s then LEAK_DETECTED else LEAK_NOT_DETECTED)"

text \<open>The \<open>onGet\<close> handler of the leak sensor: the value it returns and the state after it.\<close>

definition onGet_LeakDetected :: "accessory \<Rightarrow> leak \<times> accessory" where
  "onGet_LeakDetected s =
     (leak_value s, log Debug (GettingLeak (waterPressure s) (low_pressure s)) s)"

text \<open>The argument list of \<open>executeATAGCommand(setTemp)\<close>.\<close>

definition command_args :: "accessory \<Rightarrow> jsnum option \<Rightarrow> arg list" where
  "command_args s setTemp =
     [Flag ''-jar'', Val (Some (jarPath s))]
     @ (if mode s = JStr (js ''local'') then [Flag ''-d'', Val (host s)]
        else [Flag ''-r'', Flag ''-e'', Val (email s), Flag ''-p'', Val (password s)])
     @ (case setTemp of None \<Rightarrow> [] | Some t \<Rightarrow> [Flag ''-t'', NumStr t])"

text \<open>
  \<open>executeATAGCommand\<close> up to the point where its promise is pending: the process is
  spawned and \<open>j\<close>, the caller that awaits it, is recorded as in flight.
\<close>

definition executeATAGCommand :: "jsnum option \<Rightarrow> job \<Rightarrow> accessory \<Rightarrow> accessory" where
  "executeATAGCommand setTemp j s =
     (let args = command_args s setTemp;
          s1 = emit [Log Debug (Executing args), Spawn args] s
      in s1\<lparr>inflight := inflight s1 @ [j]\<rparr>)"

text \<open>
  How the promise settles, from the handlers of \<open>close\<close> and \<open>error\<close>: resolved with
  the output (\<open>Inr\<close>) when the exit code is 0, rejected otherwise.
\<close>

definition settle :: "child_result \<Rightarrow> error + jsstring" where
  "settle r =
     (case r of
        Closed code output errorOutput \<Rightarrow>
          if code = Some 0 then Inr output else Inl (CommandFailed code errorOutput)
      | ChildError msg \<Rightarrow> Inl (ExecuteFailed msg))"

subsection \<open>\<open>parseATAGData\<close>\<close>

text \<open>One of the five guarded assignments \<open>if (data.k !== undefined) this.f = parseFloat(data.k)\<close>.\<close>

definition set_float ::
  "(jsstring \<times> json) list \<Rightarrow> string \<Rightarrow> (jsnum \<Rightarrow> accessory \<Rightarrow> accessory) \<Rightarrow> accessory \<Rightarrow> outcome"
where
  "set_float kvs k upd s =
     (case field kvs k of
        None \<Rightarrow> Returned s
      | Some v \<Rightarrow> (case parseFloat v of Inl e \<Rightarrow> Threw e s | Inr x \<Rightarrow> Returned (upd x s)))"

text \<open>The heating state, from the flame status or the heating activity.\<close>

definition set_flame :: "(jsstring \<times> json) list \<Rightarrow> accessory \<Rightarrow> accessory" where
  "set_flame kvs s =
     (case field kvs ''flameStatus'' of
        None \<Rightarrow> s
      | Some v \<Rightarrow>
          (let s1 = s\<lparr>flameActive := (v \<noteq> JStr (js ''Off''))\<rparr>
           in if flameActive s1 then s1\<lparr>currentHeatingCoolingState := HEAT\<rparr>
              else if num_lt (currentTemperature s1) (num_sub (targetTemperature s1) (1 / 2))
              then s1\<lparr>currentHeatingCoolingState := HEAT\<rparr>
              else s1\<lparr>currentHeatingCoolingState := OFF\<rparr>))"

text \<open>The body of the \<open>try\<close> block.\<close>

definition parse_body :: "jsstring \<Rightarrow> accessory \<Rightarrow> outcome" where
  "parse_body output s =
     (case json_match output of
        None \<Rightarrow> Threw NoJSONData s
      | Some m \<Rightarrow>
          (case JSON_parse m of
             None \<Rightarrow> Threw SyntaxError s
           | Some data \<Rightarrow>
               (case props_of data of
                  None \<Rightarrow> Threw TypeError s
                | Some kvs \<Rightarrow>
                    and_then (set_float kvs ''roomTemperature'' (\<lambda>x a. a\<lparr>currentTemperature := x\<rparr>) s) (\<lambda>s.
                    and_then (set_float kvs ''targetTemperature'' (\<lambda>x a. a\<lparr>targetTemperature := x\<rparr>) s) (\<lambda>s.
                    and_then (set_float kvs ''outsideTemperature'' (\<lambda>x a. a\<lparr>outsideTemperature := x\<rparr>) s) (\<lambda>s.
                    and_then (set_float kvs ''dhwWaterTemperature'' (\<lambda>x a. a\<lparr>dhwTemperature := x\<rparr>) s) (\<lambda>s.
                    and_then (set_float kvs ''chWaterPressure'' (\<lambda>x a. a\<lparr>waterPressure := x\<rparr>) s) (\<lambda>s.
                    (let s' = set_flame kvs s
                     in Returned (log Debug
                          (UpdatedData (currentTemperature s') (targetTemperature s')
                             (currentHeatingCoolingState s')) s'))))))))))"

text \<open>The \<open>catch\<close> block logs the error and the raw output, and throws the error again.\<close>

definition parseATAGData :: "jsstring \<Rightarrow> accessory \<Rightarrow> outcome" where
  "parseATAGData output s =
     (case parse_body output s of
        Returned s' \<Rightarrow> Returned s'
      | Threw e s' \<Rightarrow> Threw e (log Debug (RawOutput output) (log Err (ParseFailed e) s')))"

subsection \<open>Publishing\<close>

definition updateHomeKitCharacteristics :: "accessory \<Rightarrow> accessory" where
  "updateHomeKitCharacteristics s =
     emit
       ([Publish Thermostat CurrentTemperature (Num (currentTemperature s)),
         Publish Thermostat TargetTemperature (Num (targetTemperature s)),
         Publish Thermostat CurrentHeatingCoolingState (Heating (currentHeatingCoolingState s))]
        @ (if outsideTemperatureService s
           then [Publish OutsideSensor CurrentTemperature (Num (outsideTemperature s))] else [])
        @ (if waterPressureService s
           then [Publish PressureSensor LeakDetected (Leak (leak_value s))] else [])
        @ (if dhwTemperatureService s
           then [Publish DHWSensor CurrentTemperature (Num (dhwTemperature s))] else []))
       s"

subsection \<open>The poll\<close>

text \<open>
  \<open>updateATAGData\<close> is an async function. \<open>updateATAGData\<close> below is its run up to the
  \<open>await\<close>; \<open>updateATAGData_resume\<close> is the rest, run when the process of the poll has
  ended with \<open>r\<close>: the \<open>try\<close> block after the \<open>await\<close>, the \<open>catch\<close> and the \<open>finally\<close>.
\<close>

definition updateATAGData :: "accessory \<Rightarrow> accessory" where
  "updateATAGData s =
     (if isUpdating s then log Debug UpdateSkipped s
      else executeATAGCommand None PollJob (s\<lparr>isUpdating := True\<rparr>))"

definition updateATAGData_resume :: "child_result \<Rightarrow> accessory \<Rightarrow> accessory" where
  "updateATAGData_resume r s =
     (let s1 =
        (case settle r of
           Inl e \<Rightarrow> log Err (UpdateFailed e) s
         | Inr data \<Rightarrow>
             (case parseATAGData data s of
                Returned s' \<Rightarrow> updateHomeKitCharacteristics s'
              | Threw e s' \<Rightarrow> log Err (UpdateFailed e) s'))
      in s1\<lparr>isUpdating := False\<rparr>)"

subsection \<open>Setting the target temperature\<close>

text \<open>\<open>setTargetTemperature\<close>, likewise split at its \<open>await\<close>.\<close>

definition setTargetTemperature :: "jsnum \<Rightarrow> accessory \<Rightarrow> accessory" where
  "setTargetTemperature temperature s =
     executeATAGCommand (Some temperature) (SetJob temperature) s"

definition setTargetTemperature_resume :: "jsnum \<Rightarrow> child_result \<Rightarrow> accessory \<Rightarrow> outcome" where
  "setTargetTemperature_resume temperature r s =
     (case settle r of
        Inr _ \<Rightarrow>
          Returned (emit [Publish Thermostat TargetTemperature (Num temperature), SetTimeout 2000]
                      (s\<lparr>targetTemperature := temperature\<rparr>))
      | Inl e \<Rightarrow>
          Threw (HapStatusError SERVICE_COMMUNICATION_FAILURE) (log Err (SetTargetFailed e) s))"

definition startPolling :: "accessory \<Rightarrow> accessory" where
  "startPolling s = emit [SetInterval (pollInterval s)] (updateATAGData s)"

definition constructor :: "config \<Rightarrow> bool \<Rightarrow> error + accessory" where
  "constructor c jar_exists =
     (let m = or_default (cfg_mode c) (JStr (js ''local''))
      in if m = JStr (js ''local'') \<and> \<not> truthy_opt (cfg_host c) then Inl HostRequired
         else if m = JStr (js ''remote'')
                 \<and> (\<not> truthy_opt (cfg_email c) \<or> \<not> truthy_opt (cfg_password c))
         then Inl CredentialsRequired
         else Inr (log Info Initialized (startPolling
           \<lparr> name = or_default (cfg_name c) (JStr (js ''ATAG One'')),
             mode = m,
             host = cfg_host c,
             email = cfg_email c,
             password = cfg_password c,
             jarPath = or_default (cfg_jarPath c)
               (JStr (js ''/usr/local/lib/node_modules/homebridge-atag-one/atag-one.jar'')),
             javaPath = or_default (cfg_javaPath c) (JStr (js ''java'')),
             pollInterval = or_default (cfg_pollInterval c) (JNum (Fin 60000)),
             timeout = or_default (cfg_timeout c) (JNum (Fin 30000)),
             temperatureDisplayUnits = or_default (cfg_temperatureDisplayUnits c) (JNum (Fin 0)),
             minTemp = or_default (cfg_minTemp c) (JNum (Fin 5)),
             maxTemp = or_default (cfg_maxTemp c) (JNum (Fin 30)),
             currentTemperature = Fin 20,
             targetTemperature = Fin 20,
             currentHeatingCoolingState = OFF,
             targetHeatingCoolingState = TargetAUTO,
             isUpdating = False,
             outsideTemperature = Fin 0,
             dhwTemperature = Fin 0,
             waterPressure = Fin 0,
             flameActive = False,
             outsideTemperatureService = truthy_opt (cfg_exposeOutsideTemperature c),
             waterPressureService = truthy_opt (cfg_exposeWaterPressure c),
             dhwTemperatureService = truthy_opt (cfg_exposeDHWTemperature c),
             inflight = [],
             trace = (if jar_exists then [] else [Log Warn JarNotFound, Log Warn DownloadHint]) \<rparr>)))"

subsection \<open>The event loop\<close>

text \<open>
  The runtime is single-threaded: between two awaits a handler runs alone. What can
  happen next is a timer firing (the interval of \<open>startPolling\<close> or the timeout of
  \<open>setTargetTemperature\<close>), the host setting a characteristic, or one of the processes
  in flight ending.
\<close>

datatype input =
    Tick                              \<comment> \<open>a timer calls \<open>updateATAGData\<close>\<close>
  | SetTemperature jsnum              \<comment> \<open>\<open>onSet\<close> of TargetTemperature\<close>
  | SetState target_state             \<comment> \<open>\<open>onSet\<close> of TargetHeatingCoolingState\<close>
  | SetUnits json                     \<comment> \<open>\<open>onSet\<close> of TemperatureDisplayUnits\<close>
  | Ended nat child_result            \<comment> \<open>the process at this place in \<open>inflight\<close> ends\<close>

definition fire :: "input \<Rightarrow> accessory \<Rightarrow> accessory option" where
  "fire i s =
     (case i of
        Tick \<Rightarrow> Some (updateATAGData s)
      | SetTemperature v \<Rightarrow> Some (setTargetTemperature v (log Info (SettingTargetTemperature v) s))
      | SetState v \<Rightarrow>
          Some (updateATAGData
                  ((log Info (SettingTargetState v) s)\<lparr>targetHeatingCoolingState := v\<rparr>))
      | SetUnits v \<Rightarrow> Some (s\<lparr>temperatureDisplayUnits := v\<rparr>)
      | Ended n r \<Rightarrow>
          if n < length (inflight s) then
            (let s1 = s\<lparr>inflight := take n (inflight s) @ drop (Suc n) (inflight s)\<rparr>
             in case inflight s ! n of
                  PollJob \<Rightarrow> Some (updateATAGData_resume r s1)
                | SetJob v \<Rightarrow>
                    (case setTargetTemperature_resume v r s1 of
                       Returned s2 \<Rightarrow> Some s2
                     | Threw e s2 \<Rightarrow> Some (emit [Fault e] s2)))
          else None)"

text \<open>The states an accessory built from \<open>c\<close> can be in.\<close>

inductive reachable :: "config \<Rightarrow> bool \<Rightarrow> accessory \<Rightarrow> bool" where
  constructed: "constructor c j = Inr s \<Longrightarrow> reachable c j s"
| fired: "reachable c j s \<Longrightarrow> fire i s = Some s' \<Longrightarrow> reachable c j s'"

section \<open>A concrete accessory\<close>

text \<open>
  A configuration for local mode with the leak sensor exposed, and the accessory as the
  constructor leaves it: the first poll is already in flight.
\<close>

definition cfg_local :: config where
  "cfg_local =
     \<lparr> cfg_name = None, cfg_mode = None, cfg_host = Some (JStr (js ''192.168.1.20'')),
       cfg_email = None, cfg_password = None, cfg_jarPath = None, cfg_javaPath = None,
       cfg_pollInterval = None, cfg_timeout = None, cfg_temperatureDisplayUnits = None,
       cfg_minTemp = None, cfg_maxTemp = None, cfg_exposeOutsideTemperature = None,
       cfg_exposeWaterPressure = Some (JBool True), cfg_exposeDHWTemperature = None \<rparr>"

definition poll_args :: "arg list" where
  "poll_args =
     [Flag ''-jar'',
      Val (Some (JStr (js ''/usr/local/lib/node_modules/homebridge-atag-one/atag-one.jar''))),
      Flag ''-d'', Val (Some (JStr (js ''192.168.1.20'')))]"

definition polling :: accessory where
  "polling =
     \<lparr> name = JStr (js ''ATAG One''),
       mode = JStr (js ''local''),
       host = Some (JStr (js ''192.168.1.20'')),
       email = None,
       password = None,
       jarPath = JStr (js ''/usr/local/lib/node_modules/homebridge-atag-one/atag-one.jar''),
       javaPath = JStr (js ''java''),
       pollInterval = JNum (Fin 60000),
       timeout = JNum (Fin 30000),
       temperatureDisplayUnits = JNum (Fin 0),
       minTemp = JNum (Fin 5),
       maxTemp = JNum (Fin 30),
       currentTemperature = Fin 20,
       targetTemperature = Fin 20,
       currentHeatingCoolingState = OFF,
       targetHeatingCoolingState = TargetAUTO,
       isUpdating = True,
       outsideTemperature = Fin 0,
       dhwTemperature = Fin 0,
       waterPressure = Fin 0,
       flameActive = False,
       outsideTemperatureService = False,
       waterPressureService = True,
       dhwTemperatureService = False,
       inflight = [PollJob],
       trace = [Log Debug (Executing poll_args), Spawn poll_args,
                SetInterval (JNum (Fin 60000)), Log Info Initialized] \<rparr>"

text \<open>The same accessory between two polls.\<close>

definition idle :: accessory where
  "idle = polling\<lparr>isUpdating := False, inflight := [], trace := []\<rparr>"

lemma constructor_cfg_local: "constructor cfg_local True = Inr polling"
  by (simp add: constructor_def cfg_local_def polling_def poll_args_def or_default_def
      truthy_opt_def startPolling_def updateATAGData_def executeATAGCommand_def
      command_args_def emit_def log_def js_def Let_def)

section \<open>The re-entrancy guard\<close>

text \<open>
  C4. A call of \<open>updateATAGData\<close> while \<open>isUpdating\<close> is true does nothing but write a
  debug line to the log: the trace gains no \<open>Spawn\<close> and no \<open>Publish\<close>, no process is
  added to those in flight, and every field of the accessory, the snapshot among them,
  stays as it was.
\<close>

theorem updateATAGData_overlap_noop:
  assumes "isUpdating s"
  shows "updateATAGData s = s\<lparr>trace := trace s @ [Log Debug UpdateSkipped]\<rparr> \<and>
         inflight (updateATAGData s) = inflight s \<and>
         currentTemperature (updateATAGData s) = currentTemperature s \<and>
         targetTemperature (updateATAGData s) = targetTemperature s \<and>
         outsideTemperature (updateATAGData s) = outsideTemperature s \<and>
         dhwTemperature (updateATAGData s) = dhwTemperature s \<and>
         waterPressure (updateATAGData s) = waterPressure s \<and>
         flameActive (updateATAGData s) = flameActive s \<and>
         currentHeatingCoolingState (updateATAGData s) = currentHeatingCoolingState s"
  using assms by (simp add: updateATAGData_def log_def emit_def)

theorem updateATAGData_overlap_noop_witness:
  "isUpdating polling \<and>
   updateATAGData polling = polling\<lparr>trace := trace polling @ [Log Debug UpdateSkipped]\<rparr> \<and>
   inflight (updateATAGData polling) = [PollJob]"
proof -
  have h: "isUpdating polling" by (simp add: polling_def)
  have i: "inflight polling = [PollJob]" by (simp add: polling_def)
  show ?thesis using h i updateATAGData_overlap_noop [OF h] by simp
qed

section \<open>What the pattern matches\<close>

text \<open>
  A string without braces; the number of closing braces of a string minus the number of
  its opening ones; and the nested group \<open>\{[^{}]*\}[^{}]*\<close> of the pattern.
\<close>

definition flat :: "jsstring \<Rightarrow> bool" where
  "flat u = list_all (\<lambda>c. c \<noteq> lbrace \<and> c \<noteq> rbrace) u"

definition excess :: "jsstring \<Rightarrow> int" where
  "excess s = int (count_list s rbrace) - int (count_list s lbrace)"

definition inner :: rx where
  "inner = Seq (Lit lbrace) (Seq nobrace (Seq (Lit rbrace) nobrace))"

lemma braces_differ: "lbrace \<noteq> rbrace"
  by (simp add: lbrace_def rbrace_def)

lemma excess_simps [simp]:
  "excess [] = 0"
  "excess (u @ v) = excess u + excess v"
  "excess (lbrace # u) = excess u - 1"
  "excess (rbrace # u) = excess u + 1"
  using braces_differ by (auto simp: excess_def)

lemma excess_flat: "flat u \<Longrightarrow> excess u = 0"
  by (induction u) (auto simp: flat_def excess_def)

lemma flat_append [simp]: "flat (u @ v) \<longleftrightarrow> flat u \<and> flat v"
  by (simp add: flat_def)

lemma flat_Nil [simp]: "flat []"
  by (simp add: flat_def)

lemma flat_suffix: "flat u \<Longrightarrow> suffix y u \<Longrightarrow> flat y"
  by (auto simp: suffix_def)

lemma lang_nobrace: "u \<in> lang nobrace \<longleftrightarrow> flat u"
proof
  assume "u \<in> lang nobrace"
  then have "u \<in> star {[x] | x. x \<notin> set [lbrace, rbrace]}" by (simp add: nobrace_def)
  then show "flat u" by (induction rule: star.induct) (auto simp: flat_def)
next
  assume "flat u"
  then have "u \<in> star {[x] | x. x \<notin> set [lbrace, rbrace]}"
  proof (induction u)
    case Nil
    show ?case by (rule star_nil)
  next
    case (Cons c u)
    then have "[c] \<in> {[x] | x. x \<notin> set [lbrace, rbrace]}" "u \<in> star {[x] | x. x \<notin> set [lbrace, rbrace]}"
      by (auto simp: flat_def)
    then have "[c] @ u \<in> star {[x] | x. x \<notin> set [lbrace, rbrace]}" by (rule star_step)
    then show ?case by simp
  qed
  then show "u \<in> lang nobrace" by (simp add: nobrace_def)
qed

lemma lang_inner: "w \<in> lang inner \<longleftrightarrow> (\<exists>a b. w = lbrace # a @ rbrace # b \<and> flat a \<and> flat b)"
proof -
  have "w \<in> lang inner \<longleftrightarrow>
        (\<exists>a b. w = [lbrace] @ a @ [rbrace] @ b \<and> a \<in> lang nobrace \<and> b \<in> lang nobrace)"
    unfolding inner_def lang.simps by blast
  then show ?thesis by (simp add: lang_nobrace)
qed

lemma lang_group1:
  "w \<in> lang group1 \<longleftrightarrow>
   (\<exists>t g. w = lbrace # t @ g @ [rbrace] \<and> flat t \<and> g \<in> star (lang inner))"
proof -
  have "w \<in> lang group1 \<longleftrightarrow>
        (\<exists>t g. w = [lbrace] @ t @ g @ [rbrace] \<and> t \<in> lang nobrace \<and> g \<in> lang (Star inner))"
    unfolding group1_def inner_def [symmetric] lang.simps(4) lang.simps(1) by blast
  then show ?thesis by (simp add: lang_nobrace)
qed

lemma inner_excess: "w \<in> lang inner \<Longrightarrow> excess w = 0"
  by (auto simp: lang_inner excess_flat)

lemma flat_suffix_excess: "flat u \<Longrightarrow> suffix y u \<Longrightarrow> excess y = 0"
  using excess_flat flat_suffix by blast

lemma inner_suffix: "w \<in> lang inner \<Longrightarrow> suffix y w \<Longrightarrow> 0 \<le> excess y"
  by (auto simp: lang_inner suffix_Cons suffix_append excess_flat flat_suffix_excess)

lemma star_inner_excess: "g \<in> star (lang inner) \<Longrightarrow> excess g = 0"
  by (induction rule: star.induct) (auto simp: inner_excess)

lemma star_inner_suffix: "g \<in> star (lang inner) \<Longrightarrow> suffix y g \<Longrightarrow> 0 \<le> excess y"
proof (induction arbitrary: y rule: star.induct)
  case star_nil
  then show ?case by simp
next
  case (star_step u v)
  from star_step.prems consider "suffix y v" | y' where "suffix y' u" "y = y' @ v"
    by (auto simp: suffix_append)
  then show ?case
  proof cases
    case 1
    then show ?thesis using star_step.IH by simp
  next
    case 2
    then show ?thesis
      using inner_suffix [OF star_step.hyps(1) 2(1)] star_inner_excess [OF star_step.hyps(2)] by simp
  qed
qed

lemma group1_excess: "w \<in> lang group1 \<Longrightarrow> excess w = 0"
  by (auto simp: lang_group1 excess_flat star_inner_excess)

lemma group1_proper_suffix:
  assumes "x @ y \<in> lang group1" "x \<noteq> []" "y \<noteq> []"
  shows "0 < excess y"
proof -
  from assms(1) obtain t g where w: "x @ y = lbrace # t @ g @ [rbrace]" "flat t" "g \<in> star (lang inner)"
    by (auto simp: lang_group1)
  from w(1) assms(2) obtain x' where "x = lbrace # x'" "x' @ y = t @ g @ [rbrace]"
    by (cases x) auto
  then have "suffix y ((t @ g) @ [rbrace])" by (simp add: suffix_def) metis
  with assms(3) obtain y' where y': "y = y' @ [rbrace]" "suffix y' (t @ g)"
    by (auto simp: suffix_append suffix_Cons)
  from y'(2) consider "suffix y' g" | z where "suffix z t" "y' = z @ g"
    by (auto simp: suffix_append)
  then have "0 \<le> excess y'"
  proof cases
    case 1
    then show ?thesis using star_inner_suffix [OF w(3)] by simp
  next
    case 2
    then show ?thesis
      using excess_flat [OF flat_suffix [OF w(2) 2(1)]] star_inner_excess [OF w(3)] by simp
  qed
  then show ?thesis using y'(1) by simp
qed

lemma group1_ends: "w \<in> lang group1 \<Longrightarrow> w \<noteq> [] \<and> hd w = lbrace \<and> last w = rbrace"
  by (auto simp: lang_group1)


lemma lang_spaces: "r \<in> lang (Star Space) \<longleftrightarrow> list_all is_space r"
proof
  assume "r \<in> lang (Star Space)"
  then have "r \<in> star {[x] | x. is_space x}" by simp
  then show "list_all is_space r" by (induction rule: star.induct) auto
next
  assume "list_all is_space r"
  then have "r \<in> star {[x] | x. is_space x}"
  proof (induction r)
    case Nil
    show ?case by (rule star_nil)
  next
    case (Cons c r)
    then have "[c] \<in> {[x] | x. is_space x}" "r \<in> star {[x] | x. is_space x}" by auto
    then have "[c] @ r \<in> star {[x] | x. is_space x}" by (rule star_step)
    then show ?case by simp
  qed
  then show "r \<in> lang (Star Space)" by simp
qed

lemma candidates_iff:
  "g \<in> set (candidates s) \<longleftrightarrow>
   (\<exists>r1 \<in> set (rmatch group1 s). [] \<in> set (rmatch (Star Space) r1) \<and> g = take (length s - length r1) s)"
  by (auto simp: candidates_def)

lemma candidates_lang:
  "g \<in> set (candidates s) \<longleftrightarrow> (\<exists>r. s = g @ r \<and> g \<in> lang group1 \<and> list_all is_space r)"
proof
  assume "g \<in> set (candidates s)"
  then obtain r1 where r1: "r1 \<in> set (rmatch group1 s)" "[] \<in> set (rmatch (Star Space) r1)"
      "g = take (length s - length r1) s"
    by (auto simp: candidates_iff)
  from r1(1) obtain u where u: "s = u @ r1" "u \<in> lang group1" by (auto simp: rmatch_lang)
  from r1(2) have "r1 \<in> lang (Star Space)" by (simp only: rmatch_lang) simp
  then have "list_all is_space r1" by (simp only: lang_spaces)
  moreover have "g = u" using r1(3) u(1) by simp
  ultimately show "\<exists>r. s = g @ r \<and> g \<in> lang group1 \<and> list_all is_space r" using u by blast
next
  assume "\<exists>r. s = g @ r \<and> g \<in> lang group1 \<and> list_all is_space r"
  then obtain r where r: "s = g @ r" "g \<in> lang group1" "list_all is_space r" by blast
  have 1: "r \<in> set (rmatch group1 s)" using r by (auto simp: rmatch_lang)
  have "r \<in> lang (Star Space)" using r(3) by (simp only: lang_spaces)
  then have 2: "[] \<in> set (rmatch (Star Space) r)" by (simp only: rmatch_lang) simp
  have 3: "g = take (length s - length r) s" using r(1) by simp
  show "g \<in> set (candidates s)" using 1 2 3 candidates_iff by blast
qed

lemma exec_at_Some:
  assumes "exec_at s = Some g"
  shows "\<exists>r. s = g @ r \<and> g \<in> lang group1 \<and> list_all is_space r"
proof -
  from assms have "g \<in> set (candidates s)"
    by (auto simp: exec_at_def split: list.splits)
  then show ?thesis by (simp only: candidates_lang)
qed

lemma exec_at_complete:
  assumes "w \<in> lang group1" "list_all is_space r"
  shows "exec_at (w @ r) \<noteq> None"
proof -
  have "w \<in> set (candidates (w @ r))" using assms candidates_lang by blast
  then show ?thesis by (auto simp: exec_at_def split: list.splits)
qed

lemma rbrace_no_space: "\<not> is_space rbrace"
  by (simp add: is_space_def rbrace_def)

lemma same_end:
  assumes eq: "w @ r = w' @ r'"
    and w: "w \<noteq> []" "last w = rbrace"
    and w': "w' \<noteq> []" "last w' = rbrace"
    and sp: "list_all is_space r" "list_all is_space r'"
  shows "w = w'"
proof -
  from eq obtain z where "(w = w' @ z \<and> z @ r = r') \<or> (w @ z = w' \<and> r = z @ r')"
    by (auto simp: append_eq_append_conv2)
  then show ?thesis
  proof
    assume z: "w = w' @ z \<and> z @ r = r'"
    show ?thesis
    proof (cases "z = []")
      case True
      then show ?thesis using z by simp
    next
      case False
      then have "last w = last z" "last z \<in> set r'" using z by auto
      then have "is_space rbrace" using sp(2) w(2) by (auto simp: list_all_iff)
      then show ?thesis using rbrace_no_space by simp
    qed
  next
    assume z: "w @ z = w' \<and> r = z @ r'"
    show ?thesis
    proof (cases "z = []")
      case True
      then show ?thesis using z by simp
    next
      case False
      then have "last w' = last z" "last z \<in> set r" using z by auto
      then have "is_space rbrace" using sp(1) w'(2) by (auto simp: list_all_iff)
      then show ?thesis using rbrace_no_space by simp
    qed
  qed
qed

lemma json_match_lang:
  assumes obj: "obj \<in> lang group1" and ws: "list_all is_space ws"
  shows "json_match (pre @ obj @ ws) = Some obj"
proof (induction pre)
  case Nil
  from exec_at_complete [OF obj ws] obtain g where g: "exec_at (obj @ ws) = Some g" by auto
  from exec_at_Some [OF g] obtain r where r: "obj @ ws = g @ r" "g \<in> lang group1" "list_all is_space r"
    by blast
  have "obj = g"
    using same_end [OF r(1)] group1_ends [OF obj] group1_ends [OF r(2)] ws r(3) by simp
  then show ?case using g by simp
next
  case (Cons c pre)
  have "exec_at ((c # pre) @ obj @ ws) = None"
  proof (rule ccontr)
    assume "exec_at ((c # pre) @ obj @ ws) \<noteq> None"
    then obtain g where g: "exec_at ((c # pre) @ obj @ ws) = Some g" by auto
    from exec_at_Some [OF g] obtain r
      where r: "(c # pre) @ obj @ ws = g @ r" "g \<in> lang group1" "list_all is_space r"
      by blast
    have "((c # pre) @ obj) @ ws = g @ r" using r(1) by simp
    then have "(c # pre) @ obj = g"
      using same_end [of "(c # pre) @ obj" ws g r] group1_ends [OF obj] group1_ends [OF r(2)] ws r(3)
      by simp
    then have "(c # pre) @ obj \<in> lang group1" using r(2) by simp
    then have "0 < excess obj"
      using group1_proper_suffix [of "c # pre" obj] group1_ends [OF obj] by simp
    then show False using group1_excess [OF obj] by simp
  qed
  then show ?case using Cons.IH by simp
qed

lemma json_match_sound: "json_match s = Some g \<Longrightarrow> g \<in> lang group1"
proof (induction s)
  case Nil
  then show ?case using exec_at_Some [of "[]" g] by (auto split: option.splits)
next
  case (Cons c s)
  then show ?case using exec_at_Some [of "c # s" g] by (auto split: option.splits)
qed


subsection \<open>Balanced objects\<close>

text \<open>
  A balanced-brace object of nesting depth at most \<open>k\<close>: it starts with an opening
  brace, which brings the depth to 1; \<open>depth_scan k d\<close> reads on at depth \<open>d\<close>, where an
  opening brace must not lead deeper than \<open>k\<close>, and the closing brace that ends depth 1
  must be the last character.
\<close>

fun depth_scan :: "nat \<Rightarrow> nat \<Rightarrow> jsstring \<Rightarrow> bool" where
  "depth_scan k d [] = False"
| "depth_scan k d (c # cs) =
     (if c = lbrace then d < k \<and> depth_scan k (Suc d) cs
      else if c = rbrace then (if d = 1 then cs = [] else 1 < d \<and> depth_scan k (d - 1) cs)
      else depth_scan k d cs)"

definition balanced_object :: "nat \<Rightarrow> jsstring \<Rightarrow> bool" where
  "balanced_object k obj =
     (case obj of [] \<Rightarrow> False | c # cs \<Rightarrow> c = lbrace \<and> 1 \<le> k \<and> depth_scan k 1 cs)"

lemma depth_scan_mono: "depth_scan k d cs \<Longrightarrow> k \<le> k' \<Longrightarrow> depth_scan k' d cs"
  by (induction k d cs rule: depth_scan.induct) (auto split: if_splits)

lemma depth_scan_inside:
  "depth_scan 2 2 cs \<Longrightarrow> \<exists>a rest. cs = a @ rbrace # rest \<and> flat a \<and> depth_scan 2 1 rest"
proof (induction cs)
  case Nil
  then show ?case by simp
next
  case (Cons c cs)
  show ?case
  proof (cases "c = rbrace")
    case True
    then have "c # cs = [] @ rbrace # cs \<and> flat [] \<and> depth_scan 2 1 cs"
      using Cons.prems braces_differ by (auto split: if_splits)
    then show ?thesis by blast
  next
    case False
    then have c: "c \<noteq> lbrace" "depth_scan 2 2 cs" using Cons.prems by (auto split: if_splits)
    from Cons.IH [OF c(2)] obtain a rest
      where "cs = a @ rbrace # rest" "flat a" "depth_scan 2 1 rest" by blast
    then have "c # cs = (c # a) @ rbrace # rest \<and> flat (c # a) \<and> depth_scan 2 1 rest"
      using False c(1) by (simp add: flat_def)
    then show ?thesis by blast
  qed
qed

lemma depth_scan_top:
  "depth_scan 2 1 cs \<Longrightarrow> \<exists>t g. cs = t @ g @ [rbrace] \<and> flat t \<and> g \<in> star (lang inner)"
proof (induction "length cs" arbitrary: cs rule: less_induct)
  case less
  from less.prems obtain c cs' where cs: "cs = c # cs'" by (cases cs) auto
  consider "c = lbrace" | "c = rbrace" | "c \<noteq> lbrace" "c \<noteq> rbrace" by blast
  then show ?case
  proof cases
    case 1
    then have "depth_scan 2 2 cs'" using less.prems cs by (simp add: numeral_2_eq_2)
    from depth_scan_inside [OF this] obtain a rest
      where a: "cs' = a @ rbrace # rest" "flat a" "depth_scan 2 1 rest" by blast
    have "length rest < length cs" using cs a(1) by simp
    from less.hyps [OF this a(3)] obtain t g
      where t: "rest = t @ g @ [rbrace]" "flat t" "g \<in> star (lang inner)" by blast
    have "lbrace # a @ rbrace # t \<in> lang inner" using a(2) t(2) by (auto simp: lang_inner)
    then have "(lbrace # a @ rbrace # t) @ g \<in> star (lang inner)" using t(3) by (rule star_step)
    moreover have "cs = [] @ ((lbrace # a @ rbrace # t) @ g) @ [rbrace]" using cs 1 a(1) t(1) by simp
    ultimately show ?thesis using flat_Nil by blast
  next
    case 2
    then have "cs' = []" using less.prems cs braces_differ by (auto split: if_splits)
    then have "cs = [] @ [] @ [rbrace]" using cs 2 by simp
    then show ?thesis using flat_Nil star_nil by blast
  next
    case 3
    then have d: "depth_scan 2 1 cs'" using less.prems cs by simp
    have "length cs' < length cs" using cs by simp
    from less.hyps [OF this d] obtain t g
      where t: "cs' = t @ g @ [rbrace]" "flat t" "g \<in> star (lang inner)" by blast
    have "cs = (c # t) @ g @ [rbrace] \<and> flat (c # t)" using cs t 3 by (simp add: flat_def)
    then show ?thesis using t(3) by blast
  qed
qed

lemma balanced_object_lang:
  assumes "balanced_object k obj" "k \<le> 2"
  shows "obj \<in> lang group1"
proof -
  from assms(1) obtain cs where cs: "obj = lbrace # cs" "depth_scan k 1 cs"
    by (auto simp: balanced_object_def split: list.splits)
  from depth_scan_mono [OF cs(2) assms(2)] have "depth_scan 2 1 cs" .
  from depth_scan_top [OF this] show ?thesis using cs(1) by (auto simp: lang_group1)
qed

text \<open>
  C3, as amended. When the output ends in a balanced-brace object of nesting depth at
  most two (an object whose nested objects contain no further braces), possibly
  followed by white space, and whatever comes before it, the text that the pattern
  captures, and that \<open>JSON.parse\<close> is then given, is exactly that object.
\<close>

theorem json_match_trailing_object:
  assumes "balanced_object k obj" "k \<le> 2" "list_all is_space ws"
  shows "json_match (pre @ obj @ ws) = Some obj"
  using json_match_lang [OF balanced_object_lang [OF assms(1,2)] assms(3)] .

text \<open>The definitions that evaluate the matcher on a given input.\<close>

lemmas match_eval = js_def exec_at_def candidates_def group1_def nobrace_def lbrace_def rbrace_def
  is_space_def rmatch_Star_Nil rmatch_Star_Cons balanced_object_def

text \<open>
  C3 as stated fails at nesting depth three: the output below is a balanced-brace object
  and nothing else, and the pattern finds no match in it, at any start.
\<close>

theorem json_match_deep_counterexample:
  \<open>balanced_object 3 (js ''{"a":{"b":{"c":1}}}'') \<and>
   json_match (js ''{"a":{"b":{"c":1}}}'') = None\<close>
  by (simp add: match_eval)

theorem json_match_trailing_object_witness:
  \<open>balanced_object 2 (js ''{"a":{"b":1}}'') \<and> (2::nat) \<le> 2 \<and> list_all is_space (js '' '') \<and>
   json_match (js ''log line {"a":{"b":1}} '') = Some (js ''{"a":{"b":1}}'')\<close>
proof -
  have 1: \<open>balanced_object 2 (js ''{"a":{"b":1}}'')\<close> by (simp add: match_eval)
  have 2: "(2::nat) \<le> 2" by simp
  have 3: "list_all is_space (js '' '')" by (simp add: match_eval)
  have 4: \<open>js ''log line {"a":{"b":1}} '' = js ''log line '' @ js ''{"a":{"b":1}}'' @ js '' ''\<close>
    by (simp add: js_def)
  show ?thesis
    using 1 2 3 json_match_trailing_object [OF 1 2 3, of "js ''log line ''"] by (simp only: 4)
qed


section \<open>When \<open>parseATAGData\<close> returns\<close>

text \<open>
  What the pattern captures starts with an opening brace, so \<open>JSON.parse\<close> makes an
  object of it or throws: \<open>data\<close> is never \<open>null\<close> or a scalar.
\<close>

lemma parse_value_object:
  assumes "parse_value (lbrace # r) = Some (d, rest)"
  shows "\<exists>kvs. d = JObj kvs"
proof -
  have "skip_ws (lbrace # r) = lbrace # r"
    by (simp add: skip_ws_def is_json_ws_def lbrace_def)
  then show ?thesis
    using assms
    by (subst (asm) parse_value.simps) (auto simp: lbrace_def split: option.splits)
qed

lemma json_match_object:
  assumes "json_match output = Some m" "JSON_parse m = Some d"
  shows "\<exists>kvs. d = JObj kvs"
proof -
  from json_match_sound [OF assms(1)] obtain r where "m = lbrace # r"
    by (auto simp: lang_group1)
  then show ?thesis
    using assms(2) parse_value_object [of r d]
    by (auto simp: JSON_parse_def split: option.splits if_splits)
qed

lemma and_then_Returned:
  "and_then r f = Returned s' \<longleftrightarrow> (\<exists>s1. r = Returned s1 \<and> f s1 = Returned s')"
  by (cases r) (auto simp: and_then_def)

lemma set_float_Returned:
  "set_float kvs k upd s = Returned s' \<longleftrightarrow>
   (case field kvs k of
      None \<Rightarrow> s' = s
    | Some v \<Rightarrow> \<not> to_string_throws v \<and> s' = upd (float_of v) s)"
  by (auto simp: set_float_def parseFloat_def split: option.splits)

text \<open>
  A summary of the \<open>try\<close> block, for the proofs: the keys of the five guarded
  assignments, when none of their conversions throws, the state after them, and the
  state after the whole block.
\<close>

definition assigned :: "(jsstring \<times> json) list \<Rightarrow> accessory \<Rightarrow> accessory" where
  "assigned kvs s =
     s\<lparr>currentTemperature :=
         (case field kvs ''roomTemperature'' of None \<Rightarrow> currentTemperature s | Some v \<Rightarrow> float_of v),
       targetTemperature :=
         (case field kvs ''targetTemperature'' of None \<Rightarrow> targetTemperature s | Some v \<Rightarrow> float_of v),
       outsideTemperature :=
         (case field kvs ''outsideTemperature'' of None \<Rightarrow> outsideTemperature s | Some v \<Rightarrow> float_of v),
       dhwTemperature :=
         (case field kvs ''dhwWaterTemperature'' of None \<Rightarrow> dhwTemperature s | Some v \<Rightarrow> float_of v),
       waterPressure :=
         (case field kvs ''chWaterPressure'' of None \<Rightarrow> waterPressure s | Some v \<Rightarrow> float_of v)\<rparr>"

definition float_keys :: "string list" where
  "float_keys = [''roomTemperature'', ''targetTemperature'', ''outsideTemperature'',
                 ''dhwWaterTemperature'', ''chWaterPressure'']"

definition convertible :: "(jsstring \<times> json) list \<Rightarrow> bool" where
  "convertible kvs =
     list_all (\<lambda>k. case field kvs k of None \<Rightarrow> True | Some v \<Rightarrow> \<not> to_string_throws v) float_keys"

definition finish :: "(jsstring \<times> json) list \<Rightarrow> accessory \<Rightarrow> accessory" where
  "finish kvs s =
     (let s' = set_flame kvs (assigned kvs s)
      in log Debug (UpdatedData (currentTemperature s') (targetTemperature s')
                      (currentHeatingCoolingState s')) s')"

lemma assignments:
  "and_then (set_float kvs ''roomTemperature'' (\<lambda>x a. a\<lparr>currentTemperature := x\<rparr>) s) (\<lambda>s.
   and_then (set_float kvs ''targetTemperature'' (\<lambda>x a. a\<lparr>targetTemperature := x\<rparr>) s) (\<lambda>s.
   and_then (set_float kvs ''outsideTemperature'' (\<lambda>x a. a\<lparr>outsideTemperature := x\<rparr>) s) (\<lambda>s.
   and_then (set_float kvs ''dhwWaterTemperature'' (\<lambda>x a. a\<lparr>dhwTemperature := x\<rparr>) s) (\<lambda>s.
   and_then (set_float kvs ''chWaterPressure'' (\<lambda>x a. a\<lparr>waterPressure := x\<rparr>) s) f)))) = Returned s'
   \<longleftrightarrow> convertible kvs \<and> f (assigned kvs s) = Returned s'"
  by (cases "field kvs ''roomTemperature''"; cases "field kvs ''targetTemperature''";
      cases "field kvs ''outsideTemperature''"; cases "field kvs ''dhwWaterTemperature''";
      cases "field kvs ''chWaterPressure''")
     (simp_all add: and_then_def set_float_def parseFloat_def convertible_def float_keys_def
        assigned_def)

lemma parse_body_Returned:
  "parse_body output s = Returned s' \<longleftrightarrow>
   (\<exists>m kvs. json_match output = Some m \<and> JSON_parse m = Some (JObj kvs) \<and> convertible kvs \<and>
            s' = finish kvs s)"
proof (cases "json_match output")
  case None
  then show ?thesis by (simp add: parse_body_def)
next
  case (Some m)
  show ?thesis
  proof (cases "JSON_parse m")
    case None
    then show ?thesis using Some by (simp add: parse_body_def)
  next
    case d: (Some d)
    from json_match_object [OF Some d] obtain kvs where kvs: "d = JObj kvs" by blast
    show ?thesis
      using Some d kvs
      by (simp add: parse_body_def assignments finish_def Let_def) blast
  qed
qed

lemma parseATAGData_Returned:
  "parseATAGData output s = Returned s' \<longleftrightarrow>
   (\<exists>m kvs. json_match output = Some m \<and> JSON_parse m = Some (JObj kvs) \<and> convertible kvs \<and>
            s' = finish kvs s)"
  using parse_body_Returned [of "output" s "s'"]
  by (cases "parse_body output s") (auto simp: parseATAGData_def)


text \<open>The definitions that evaluate the parser on a given input.\<close>

lemmas json_eval = JSON_parse_def js_def skip_ws_def is_json_ws_def expect_def json_number_def
  exp_part_def decimal_def digits_val_def is_digit_def hex_val_def literal_at_def r64

text \<open>The snapshot after the \<open>try\<close> block.\<close>

lemma finish_floats:
  "currentTemperature (finish kvs s) =
     (case field kvs ''roomTemperature'' of None \<Rightarrow> currentTemperature s | Some v \<Rightarrow> float_of v)"
  "targetTemperature (finish kvs s) =
     (case field kvs ''targetTemperature'' of None \<Rightarrow> targetTemperature s | Some v \<Rightarrow> float_of v)"
  "outsideTemperature (finish kvs s) =
     (case field kvs ''outsideTemperature'' of None \<Rightarrow> outsideTemperature s | Some v \<Rightarrow> float_of v)"
  "dhwTemperature (finish kvs s) =
     (case field kvs ''dhwWaterTemperature'' of None \<Rightarrow> dhwTemperature s | Some v \<Rightarrow> float_of v)"
  "waterPressure (finish kvs s) =
     (case field kvs ''chWaterPressure'' of None \<Rightarrow> waterPressure s | Some v \<Rightarrow> float_of v)"
  by (simp_all add: finish_def set_flame_def assigned_def log_def emit_def Let_def
      split: option.splits)

lemma finish_flame:
  "flameActive (finish kvs s) =
     (case field kvs ''flameStatus'' of None \<Rightarrow> flameActive s | Some v \<Rightarrow> v \<noteq> JStr (js ''Off''))"
  "currentHeatingCoolingState (finish kvs s) =
     (case field kvs ''flameStatus'' of
        None \<Rightarrow> currentHeatingCoolingState s
      | Some v \<Rightarrow>
          if v \<noteq> JStr (js ''Off'')
             \<or> num_lt (currentTemperature (finish kvs s)) (num_sub (targetTemperature (finish kvs s)) (1 / 2))
          then HEAT else OFF)"
  by (simp_all add: finish_def set_flame_def assigned_def log_def emit_def Let_def
      split: option.splits)

subsection \<open>A sample output\<close>

text \<open>
  An output with a line of text before the object; the object has three of the six
  fields, the water pressure as a string.
\<close>

definition sample_output :: jsstring where
  \<open>sample_output = js ''ATAG {"roomTemperature":21.5,"chWaterPressure":"0.9","flameStatus":"Off"} ''\<close>

definition sample_object :: jsstring where
  \<open>sample_object = js ''{"roomTemperature":21.5,"chWaterPressure":"0.9","flameStatus":"Off"}''\<close>

definition sample_props :: "(jsstring \<times> json) list" where
  "sample_props =
     [(js ''roomTemperature'', JNum (Fin (43 / 2))),
      (js ''chWaterPressure'', JStr (js ''0.9'')),
      (js ''flameStatus'', JStr (js ''Off''))]"

lemma sample_match: "json_match sample_output = Some sample_object"
  by (simp add: sample_output_def sample_object_def match_eval)

lemma sample_parse: "JSON_parse sample_object = Some (JObj sample_props)"
  by (simp add: sample_object_def sample_props_def json_eval)


lemma sample_convertible: "convertible sample_props"
  by (simp add: convertible_def float_keys_def sample_props_def field_def js_def)

lemma sample_fields:
  "field sample_props ''roomTemperature'' = Some (JNum (Fin (43 / 2)))"
  "field sample_props ''targetTemperature'' = None"
  "field sample_props ''outsideTemperature'' = None"
  "field sample_props ''dhwWaterTemperature'' = None"
  "field sample_props ''chWaterPressure'' = Some (JStr (js ''0.9''))"
  "field sample_props ''flameStatus'' = Some (JStr (js ''Off''))"
  by (simp_all add: sample_props_def field_def js_def)

lemma sample_pressure:
  "str_to_float (js ''0.9'') = Fin (8106479329266893 / 9007199254740992)"
  by (simp add: str_to_float_def js_def is_space_def is_digit_def exp_part_def decimal_def
      digits_val_def r64)

lemma sample_returns: "parseATAGData sample_output s = Returned (finish sample_props s)"
  using sample_match sample_parse sample_convertible by (auto simp: parseATAGData_Returned)

subsection \<open>An output with a value that cannot be converted\<close>

text \<open>
  The target temperature of this object is an object with an own property
  \<open>toString\<close>: \<open>JSON.parse\<close> decodes the output, \<open>parseFloat\<close> throws on that value,
  after the room temperature has been assigned and before the water pressure is read.
\<close>

definition tricky_output :: jsstring where
  \<open>tricky_output =
     js ''{"roomTemperature":5,"targetTemperature":{"toString":1},"chWaterPressure":2,"flameStatus":"On"}''\<close>

definition tricky_props :: "(jsstring \<times> json) list" where
  "tricky_props =
     [(js ''roomTemperature'', JNum (Fin 5)),
      (js ''targetTemperature'', JObj [(js ''toString'', JNum (Fin 1))]),
      (js ''chWaterPressure'', JNum (Fin 2)),
      (js ''flameStatus'', JStr (js ''On''))]"

lemma tricky_match: "json_match tricky_output = Some tricky_output"
  by (simp add: tricky_output_def match_eval)

lemma tricky_parse: "JSON_parse tricky_output = Some (JObj tricky_props)"
  by (simp add: tricky_output_def tricky_props_def json_eval)

lemma tricky_fields:
  "field tricky_props ''roomTemperature'' = Some (JNum (Fin 5))"
  "field tricky_props ''targetTemperature'' = Some (JObj [(js ''toString'', JNum (Fin 1))])"
  "field tricky_props ''chWaterPressure'' = Some (JNum (Fin 2))"
  "field tricky_props ''flameStatus'' = Some (JStr (js ''On''))"
  by (simp_all add: tricky_props_def field_def js_def)

lemma tricky_throws:
  "parseATAGData tricky_output s =
     Threw TypeError
       (s\<lparr>currentTemperature := Fin 5,
          trace := trace s @ [Log Err (ParseFailed TypeError), Log Debug (RawOutput tricky_output)]\<rparr>)"
  by (simp add: parseATAGData_def parse_body_def tricky_match tricky_parse tricky_fields
      and_then_def set_float_def parseFloat_def log_def emit_def del: json_match.simps)

section \<open>The fields of the snapshot\<close>

text \<open>
  C1, as amended. Let the pattern capture a trailing object, let \<open>JSON.parse\<close> decode
  it, and let no field among \<open>roomTemperature\<close>, \<open>targetTemperature\<close>,
  \<open>outsideTemperature\<close>, \<open>dhwWaterTemperature\<close> and \<open>chWaterPressure\<close> that is present
  hold a value on which \<open>parseFloat\<close> throws. Then \<open>parseATAGData\<close> returns, and each
  of \<open>currentTemperature\<close>, \<open>targetTemperature\<close>, \<open>outsideTemperature\<close>,
  \<open>dhwTemperature\<close> and \<open>waterPressure\<close> is the float value (\<open>parseFloat\<close>) of its
  field when that field is present, and is what it was before the call when the field
  is absent.
\<close>

theorem parseATAGData_copies_fields:
  assumes "json_match out = Some m" and "JSON_parse m = Some (JObj kvs)" and "convertible kvs"
  shows "\<exists>s'. parseATAGData out s = Returned s' \<and>
    (case field kvs ''roomTemperature'' of
       None \<Rightarrow> currentTemperature s' = currentTemperature s
     | Some v \<Rightarrow> parseFloat v = Inr (currentTemperature s')) \<and>
    (case field kvs ''targetTemperature'' of
       None \<Rightarrow> targetTemperature s' = targetTemperature s
     | Some v \<Rightarrow> parseFloat v = Inr (targetTemperature s')) \<and>
    (case field kvs ''outsideTemperature'' of
       None \<Rightarrow> outsideTemperature s' = outsideTemperature s
     | Some v \<Rightarrow> parseFloat v = Inr (outsideTemperature s')) \<and>
    (case field kvs ''dhwWaterTemperature'' of
       None \<Rightarrow> dhwTemperature s' = dhwTemperature s
     | Some v \<Rightarrow> parseFloat v = Inr (dhwTemperature s')) \<and>
    (case field kvs ''chWaterPressure'' of
       None \<Rightarrow> waterPressure s' = waterPressure s
     | Some v \<Rightarrow> parseFloat v = Inr (waterPressure s'))"
proof -
  have r: "parseATAGData out s = Returned (finish kvs s)"
    using assms by (auto simp only: parseATAGData_Returned)
  note c = assms(3)
  have 1: "case field kvs ''roomTemperature'' of
       None \<Rightarrow> currentTemperature (finish kvs s) = currentTemperature s
     | Some v \<Rightarrow> parseFloat v = Inr (currentTemperature (finish kvs s))"
    using c unfolding finish_floats
    by (cases "field kvs ''roomTemperature''")
       (simp_all add: convertible_def float_keys_def parseFloat_def)
  have 2: "case field kvs ''targetTemperature'' of
       None \<Rightarrow> targetTemperature (finish kvs s) = targetTemperature s
     | Some v \<Rightarrow> parseFloat v = Inr (targetTemperature (finish kvs s))"
    using c unfolding finish_floats
    by (cases "field kvs ''targetTemperature''")
       (simp_all add: convertible_def float_keys_def parseFloat_def)
  have 3: "case field kvs ''outsideTemperature'' of
       None \<Rightarrow> outsideTemperature (finish kvs s) = outsideTemperature s
     | Some v \<Rightarrow> parseFloat v = Inr (outsideTemperature (finish kvs s))"
    using c unfolding finish_floats
    by (cases "field kvs ''outsideTemperature''")
       (simp_all add: convertible_def float_keys_def parseFloat_def)
  have 4: "case field kvs ''dhwWaterTemperature'' of
       None \<Rightarrow> dhwTemperature (finish kvs s) = dhwTemperature s
     | Some v \<Rightarrow> parseFloat v = Inr (dhwTemperature (finish kvs s))"
    using c unfolding finish_floats
    by (cases "field kvs ''dhwWaterTemperature''")
       (simp_all add: convertible_def float_keys_def parseFloat_def)
  have 5: "case field kvs ''chWaterPressure'' of
       None \<Rightarrow> waterPressure (finish kvs s) = waterPressure s
     | Some v \<Rightarrow> parseFloat v = Inr (waterPressure (finish kvs s))"
    using c unfolding finish_floats
    by (cases "field kvs ''chWaterPressure''")
       (simp_all add: convertible_def float_keys_def parseFloat_def)
  show ?thesis using r 1 2 3 4 5 by blast
qed

theorem parseATAGData_copies_fields_witness:
  "json_match sample_output = Some sample_object \<and>
   JSON_parse sample_object = Some (JObj sample_props) \<and>
   convertible sample_props \<and>
   parseATAGData sample_output idle = Returned (finish sample_props idle) \<and>
   currentTemperature (finish sample_props idle) = Fin (43 / 2) \<and>
   targetTemperature (finish sample_props idle) = Fin 20 \<and>
   waterPressure (finish sample_props idle) = Fin (8106479329266893 / 9007199254740992)"
proof -
  from parseATAGData_copies_fields [OF sample_match sample_parse sample_convertible, of idle]
  obtain s' where r: "parseATAGData sample_output idle = Returned s'"
      and f: "case field sample_props ''roomTemperature'' of
                None \<Rightarrow> currentTemperature s' = currentTemperature idle
              | Some v \<Rightarrow> parseFloat v = Inr (currentTemperature s')"
             "case field sample_props ''targetTemperature'' of
                None \<Rightarrow> targetTemperature s' = targetTemperature idle
              | Some v \<Rightarrow> parseFloat v = Inr (targetTemperature s')"
             "case field sample_props ''chWaterPressure'' of
                None \<Rightarrow> waterPressure s' = waterPressure idle
              | Some v \<Rightarrow> parseFloat v = Inr (waterPressure s')"
    by blast
  have s': "s' = finish sample_props idle" using r sample_returns [of idle] by simp
  show ?thesis
    using sample_match sample_parse sample_convertible r f unfolding s'
    by (simp add: sample_fields sample_pressure parseFloat_def idle_def polling_def)
qed

text \<open>
  C1 as stated fails on the output above: its object parses, \<open>chWaterPressure\<close> is present
  with the float value 2, and \<open>parseATAGData\<close> throws before it reads the field, so the
  water pressure keeps the value 0 it had.
\<close>

theorem parseATAGData_throws_counterexample:
  "json_match tricky_output = Some tricky_output \<and>
   JSON_parse tricky_output = Some (JObj tricky_props) \<and>
   field tricky_props ''chWaterPressure'' = Some (JNum (Fin 2)) \<and>
   parseFloat (JNum (Fin 2)) = Inr (Fin 2) \<and>
   parseATAGData tricky_output idle =
     Threw TypeError
       (idle\<lparr>currentTemperature := Fin 5,
             trace := [Log Err (ParseFailed TypeError), Log Debug (RawOutput tricky_output)]\<rparr>) \<and>
   waterPressure
       (idle\<lparr>currentTemperature := Fin 5,
             trace := [Log Err (ParseFailed TypeError), Log Debug (RawOutput tricky_output)]\<rparr>)
     = Fin 0"
  using tricky_match tricky_parse tricky_throws [of idle]
  by (simp add: tricky_fields parseFloat_def idle_def polling_def)













section \<open>A poll that fails\<close>

text \<open>
  The device snapshot of the specification: the five readings and the flame flag.
\<close>

definition snapshot :: "accessory \<Rightarrow> jsnum \<times> jsnum \<times> jsnum \<times> jsnum \<times> jsnum \<times> bool" where
  "snapshot s =
     (currentTemperature s, targetTemperature s, outsideTemperature s, dhwTemperature s,
      waterPressure s, flameActive s)"

definition is_log :: "event \<Rightarrow> bool" where
  "is_log e = (case e of Log _ _ \<Rightarrow> True | _ \<Rightarrow> False)"

text \<open>
  Every way for a poll to fail: the promise of the command is rejected, or
  \<open>parseATAGData\<close> throws.
\<close>

definition poll_failed :: "child_result \<Rightarrow> accessory \<Rightarrow> bool" where
  "poll_failed r s =
     (case settle r of
        Inl _ \<Rightarrow> True
      | Inr out \<Rightarrow> (case parseATAGData out s of Returned _ \<Rightarrow> False | Threw _ _ \<Rightarrow> True))"

text \<open>
  The failures that come before any assignment: the process ends with an exit code
  other than 0 (or with none), the spawn itself errors, the output holds no JSON for the
  pattern, or what the pattern captures does not parse.
\<close>

definition fails_early :: "child_result \<Rightarrow> bool" where
  "fails_early r =
     (case r of
        ChildError _ \<Rightarrow> True
      | Closed code out err \<Rightarrow>
          code \<noteq> Some 0 \<or> (case json_match out of None \<Rightarrow> True | Some m \<Rightarrow> JSON_parse m = None))"

text \<open>Without a match, or with one that does not parse, nothing is assigned before the throw.\<close>

lemma parseATAGData_Threw_early:
  assumes "case json_match out of None \<Rightarrow> True | Some m \<Rightarrow> JSON_parse m = None"
  shows "\<exists>e. parseATAGData out s =
           Threw e (s\<lparr>trace := trace s @ [Log Err (ParseFailed e), Log Debug (RawOutput out)]\<rparr>)"
  using assms
  by (auto simp: parseATAGData_def parse_body_def log_def emit_def split: option.splits)

text \<open>Whatever is assigned before a throw, the trace is not touched.\<close>

lemma and_then_Threw_trace:
  assumes "trace (state_of r) = q"
    and "\<And>s1. trace s1 = q \<Longrightarrow> (case f s1 of Returned _ \<Rightarrow> True | Threw e s' \<Rightarrow> trace s' = q)"
  shows "case and_then r f of Returned _ \<Rightarrow> True | Threw e s' \<Rightarrow> trace s' = q"
proof (cases r)
  case (Returned s1)
  then show ?thesis using assms by (simp add: and_then_def)
next
  case (Threw e s1)
  then show ?thesis using assms(1) by (simp add: and_then_def)
qed

lemma set_float_trace:
  assumes "\<And>x a. trace (upd x a) = trace a" and "trace s = q"
  shows "trace (state_of (set_float kvs k upd s)) = q"
proof (cases "field kvs k")
  case None
  then show ?thesis using assms(2) by (simp add: set_float_def)
next
  case (Some v)
  then show ?thesis using assms by (cases "parseFloat v") (simp_all add: set_float_def)
qed

lemma parse_body_Threw_trace:
  "case parse_body out s of Returned _ \<Rightarrow> True | Threw e s' \<Rightarrow> trace s' = trace s"
proof (cases "json_match out")
  case None
  then show ?thesis by (simp add: parse_body_def)
next
  case (Some m)
  show ?thesis
  proof (cases "JSON_parse m")
    case None
    then show ?thesis using Some by (simp add: parse_body_def)
  next
    case d: (Some d)
    show ?thesis
    proof (cases "props_of d")
      case None
      then show ?thesis using Some d by (simp add: parse_body_def)
    next
      case kvs: (Some kvs)
      have "case
          and_then (set_float kvs ''roomTemperature'' (\<lambda>x a. a\<lparr>currentTemperature := x\<rparr>) s) (\<lambda>s.
          and_then (set_float kvs ''targetTemperature'' (\<lambda>x a. a\<lparr>targetTemperature := x\<rparr>) s) (\<lambda>s.
          and_then (set_float kvs ''outsideTemperature'' (\<lambda>x a. a\<lparr>outsideTemperature := x\<rparr>) s) (\<lambda>s.
          and_then (set_float kvs ''dhwWaterTemperature'' (\<lambda>x a. a\<lparr>dhwTemperature := x\<rparr>) s) (\<lambda>s.
          and_then (set_float kvs ''chWaterPressure'' (\<lambda>x a. a\<lparr>waterPressure := x\<rparr>) s) (\<lambda>s.
          (let s' = set_flame kvs s
           in Returned (log Debug
                (UpdatedData (currentTemperature s') (targetTemperature s')
                   (currentHeatingCoolingState s')) s')))))))
        of Returned _ \<Rightarrow> True | Threw e s' \<Rightarrow> trace s' = trace s"
        apply (rule and_then_Threw_trace, rule set_float_trace, simp, rule refl)
        apply (rule and_then_Threw_trace, rule set_float_trace, simp, assumption)
        apply (rule and_then_Threw_trace, rule set_float_trace, simp, assumption)
        apply (rule and_then_Threw_trace, rule set_float_trace, simp, assumption)
        apply (rule and_then_Threw_trace, rule set_float_trace, simp, assumption)
        apply (simp add: Let_def)
        done
      then show ?thesis by (simp add: parse_body_def Some d kvs del: json_match.simps)
    qed
  qed
qed

lemma parseATAGData_Threw_trace:
  assumes "parseATAGData out s = Threw e s'"
  shows "trace s' = trace s @ [Log Err (ParseFailed e), Log Debug (RawOutput out)]"
proof (cases "parse_body out s")
  case (Returned p)
  then show ?thesis using assms by (simp add: parseATAGData_def)
next
  case (Threw e0 p)
  then have "trace p = trace s" using parse_body_Threw_trace [where out = out and s = s] by simp
  then show ?thesis using assms Threw by (auto simp: parseATAGData_def log_def emit_def)
qed

lemma fails_early_failed:
  assumes "fails_early r"
  shows "poll_failed r s"
proof (cases "settle r")
  case (Inl e)
  then show ?thesis by (simp add: poll_failed_def)
next
  case (Inr out)
  then have "case json_match out of None \<Rightarrow> True | Some m \<Rightarrow> JSON_parse m = None"
    using assms by (auto simp: fails_early_def settle_def split: child_result.splits if_splits)
  from parseATAGData_Threw_early [OF this, of s] show ?thesis
    using Inr by (auto simp: poll_failed_def)
qed

lemma failed_logged:
  assumes "poll_failed r s"
  shows "\<exists>e pre. trace (updateATAGData_resume r s) = trace s @ pre @ [Log Err (UpdateFailed e)] \<and>
                 list_all is_log pre"
proof (cases "settle r")
  case (Inl e)
  then have "trace (updateATAGData_resume r s) = trace s @ [] @ [Log Err (UpdateFailed e)]"
    by (simp add: updateATAGData_resume_def log_def emit_def)
  moreover have "list_all is_log []" by simp
  ultimately show ?thesis by blast
next
  case (Inr out)
  then obtain e p where t: "parseATAGData out s = Threw e p"
    using assms by (auto simp: poll_failed_def split: outcome.splits)
  have "trace (updateATAGData_resume r s) = trace p @ [Log Err (UpdateFailed e)]"
    using Inr t by (simp add: updateATAGData_resume_def log_def emit_def)
  then have "trace (updateATAGData_resume r s) =
      trace s @ [Log Err (ParseFailed e), Log Debug (RawOutput out)] @ [Log Err (UpdateFailed e)]"
    using parseATAGData_Threw_trace [OF t] by simp
  moreover have "list_all is_log [Log Err (ParseFailed e), Log Debug (RawOutput out)]"
    by (simp add: is_log_def)
  ultimately show ?thesis by blast
qed

text \<open>
  C2, as amended. When a poll fails, in whatever way, the error is caught and logged:
  the call returns, and what it adds to the trace is log lines only, the last of them
  the error \<open>Failed to update ATAG data\<close>. When the failure is one of those that come
  before any assignment (a non-zero exit, a spawn error, no JSON, JSON that does not
  parse), every field of the snapshot and the heating state are what they were before.
  Whether the poll fails or succeeds, \<open>isUpdating\<close> is false when it has finished. The
  start of the poll changes no field of the snapshot either.
\<close>

theorem updateATAGData_failure:
  "(poll_failed r s \<longrightarrow>
      (\<exists>e pre. trace (updateATAGData_resume r s) = trace s @ pre @ [Log Err (UpdateFailed e)] \<and>
               list_all is_log pre)) \<and>
   (fails_early r \<longrightarrow>
      poll_failed r s \<and>
      snapshot (updateATAGData_resume r s) = snapshot s \<and>
      currentHeatingCoolingState (updateATAGData_resume r s) = currentHeatingCoolingState s) \<and>
   \<not> isUpdating (updateATAGData_resume r s) \<and>
   snapshot (updateATAGData s) = snapshot s"
proof -
  have 1: "\<not> isUpdating (updateATAGData_resume r s)"
    by (simp add: updateATAGData_resume_def Let_def)
  have 2: "snapshot (updateATAGData s) = snapshot s"
    by (simp add: updateATAGData_def executeATAGCommand_def snapshot_def log_def emit_def Let_def)
  have 3: "snapshot (updateATAGData_resume r s) = snapshot s \<and>
      currentHeatingCoolingState (updateATAGData_resume r s) = currentHeatingCoolingState s"
    if f: "fails_early r"
  proof (cases "settle r")
    case (Inl e)
    then have "updateATAGData_resume r s =
        s\<lparr>trace := trace s @ [Log Err (UpdateFailed e)], isUpdating := False\<rparr>"
      by (simp add: updateATAGData_resume_def log_def emit_def)
    then show ?thesis by (simp add: snapshot_def)
  next
    case (Inr out)
    then have "case json_match out of None \<Rightarrow> True | Some m \<Rightarrow> JSON_parse m = None"
      using f by (auto simp: fails_early_def settle_def split: child_result.splits if_splits)
    from parseATAGData_Threw_early [OF this, of s] obtain e where
      "parseATAGData out s =
         Threw e (s\<lparr>trace := trace s @ [Log Err (ParseFailed e), Log Debug (RawOutput out)]\<rparr>)"
      by blast
    then have "updateATAGData_resume r s =
        s\<lparr>trace := trace s @ [Log Err (ParseFailed e), Log Debug (RawOutput out)] @ [Log Err (UpdateFailed e)],
          isUpdating := False\<rparr>"
      using Inr by (simp add: updateATAGData_resume_def log_def emit_def)
    then show ?thesis by (simp add: snapshot_def)
  qed
  show ?thesis using 1 2 3 failed_logged fails_early_failed by blast
qed

text \<open>Three failing processes: a non-zero exit, an output without JSON, a malformed object.\<close>

definition failed_exit :: child_result where
  "failed_exit = Closed (Some 1) [] (js ''Connection refused'')"

definition no_json :: child_result where
  "no_json = Closed (Some 0) (js ''no thermostat found'') []"

definition bad_json :: child_result where
  \<open>bad_json = Closed (Some 0) (js ''{"roomTemperature":}'') []\<close>

text \<open>A process that exits with code 0 and the output whose target temperature cannot be converted.\<close>

definition tricky_poll :: child_result where
  "tricky_poll = Closed (Some 0) tricky_output []"

theorem updateATAGData_failure_witness:
  "fails_early failed_exit \<and> fails_early (ChildError (js ''spawn java ENOENT'')) \<and>
   fails_early no_json \<and> fails_early bad_json \<and>
   poll_failed tricky_poll polling \<and>
   snapshot (updateATAGData_resume failed_exit polling) = snapshot polling \<and>
   snapshot (updateATAGData_resume no_json polling) = snapshot polling \<and>
   snapshot (updateATAGData_resume bad_json polling) = snapshot polling \<and>
   isUpdating polling \<and> \<not> isUpdating (updateATAGData_resume tricky_poll polling)"
proof -
  have 1: "fails_early failed_exit" by (simp add: fails_early_def failed_exit_def)
  have 2: "fails_early (ChildError (js ''spawn java ENOENT''))" by (simp add: fails_early_def)
  have 3: "fails_early no_json" by (simp add: fails_early_def no_json_def match_eval)
  have 4: "fails_early bad_json" by (simp add: fails_early_def bad_json_def match_eval json_eval)
  have 5: "isUpdating polling" by (simp add: polling_def)
  have 6: "poll_failed tricky_poll polling"
    by (simp add: poll_failed_def tricky_poll_def settle_def tricky_throws)
  show ?thesis
    using 1 2 3 4 5 6 updateATAGData_failure [of failed_exit polling]
      updateATAGData_failure [of no_json polling] updateATAGData_failure [of bad_json polling]
      updateATAGData_failure [of tricky_poll polling]
    by blast
qed

text \<open>
  C2 as stated fails on that poll: it fails with a TypeError, which is caught and logged
  like any other, and the room temperature, assigned before the throw, has gone from
  20 to 5.
\<close>

theorem poll_failure_changes_snapshot_counterexample:
  "settle tricky_poll = Inr tricky_output \<and>
   updateATAGData_resume tricky_poll polling =
     polling\<lparr>currentTemperature := Fin 5,
             trace := trace polling @
               [Log Err (ParseFailed TypeError), Log Debug (RawOutput tricky_output),
                Log Err (UpdateFailed TypeError)],
             isUpdating := False\<rparr> \<and>
   currentTemperature polling = Fin 20 \<and>
   currentTemperature (updateATAGData_resume tricky_poll polling) = Fin 5"
proof -
  have 1: "settle tricky_poll = Inr tricky_output" by (simp add: settle_def tricky_poll_def)
  have 2: "updateATAGData_resume tricky_poll polling =
     polling\<lparr>currentTemperature := Fin 5,
             trace := trace polling @
               [Log Err (ParseFailed TypeError), Log Debug (RawOutput tricky_output),
                Log Err (UpdateFailed TypeError)],
             isUpdating := False\<rparr>"
    by (simp add: updateATAGData_resume_def 1 tricky_throws log_def emit_def)
  show ?thesis using 1 2 by (simp add: polling_def)
qed

section \<open>A poll that succeeds\<close>

text \<open>A process that exits with code 0 and the sample output.\<close>

definition sample_poll :: child_result where
  "sample_poll = Closed (Some 0) sample_output []"

lemma resume_success:
  assumes "settle r = Inr out" "parseATAGData out s = Returned p"
  shows "updateATAGData_resume r s = (updateHomeKitCharacteristics p)\<lparr>isUpdating := False\<rparr>"
  using assms by (simp add: updateATAGData_resume_def)

lemma resume_success_snapshot:
  assumes "settle r = Inr out" "parseATAGData out s = Returned p"
  shows "snapshot (updateATAGData_resume r s) = snapshot p"
    and "currentHeatingCoolingState (updateATAGData_resume r s) = currentHeatingCoolingState p"
    and "trace (updateATAGData_resume r s) = trace (updateHomeKitCharacteristics p)"
  by (simp_all add: resume_success [OF assms] snapshot_def updateHomeKitCharacteristics_def emit_def)

text \<open>
  C7, as amended. On a successful poll each field of the snapshot whose JSON field is
  present in the output is replaced by a value that the output alone determines (the
  same from any two earlier states), and each field whose JSON field is absent keeps the
  value it had before the poll.
\<close>

theorem poll_overwrites_present_fields:
  assumes "settle r = Inr out"
    and "parseATAGData out s1 = Returned p1"
    and "parseATAGData out s2 = Returned p2"
  shows "\<exists>m kvs. json_match out = Some m \<and> JSON_parse m = Some (JObj kvs) \<and>
    (if field kvs ''roomTemperature'' = None
     then currentTemperature (updateATAGData_resume r s1) = currentTemperature s1
     else currentTemperature (updateATAGData_resume r s1) = currentTemperature (updateATAGData_resume r s2)) \<and>
    (if field kvs ''targetTemperature'' = None
     then targetTemperature (updateATAGData_resume r s1) = targetTemperature s1
     else targetTemperature (updateATAGData_resume r s1) = targetTemperature (updateATAGData_resume r s2)) \<and>
    (if field kvs ''outsideTemperature'' = None
     then outsideTemperature (updateATAGData_resume r s1) = outsideTemperature s1
     else outsideTemperature (updateATAGData_resume r s1) = outsideTemperature (updateATAGData_resume r s2)) \<and>
    (if field kvs ''dhwWaterTemperature'' = None
     then dhwTemperature (updateATAGData_resume r s1) = dhwTemperature s1
     else dhwTemperature (updateATAGData_resume r s1) = dhwTemperature (updateATAGData_resume r s2)) \<and>
    (if field kvs ''chWaterPressure'' = None
     then waterPressure (updateATAGData_resume r s1) = waterPressure s1
     else waterPressure (updateATAGData_resume r s1) = waterPressure (updateATAGData_resume r s2)) \<and>
    (if field kvs ''flameStatus'' = None
     then flameActive (updateATAGData_resume r s1) = flameActive s1
     else flameActive (updateATAGData_resume r s1) = flameActive (updateATAGData_resume r s2))"
proof -
  from assms(2) obtain m kvs
    where m: "json_match out = Some m" "JSON_parse m = Some (JObj kvs)" and p1: "p1 = finish kvs s1"
    by (auto simp only: parseATAGData_Returned)
  from assms(3) m have p2: "p2 = finish kvs s2"
    by (auto simp only: parseATAGData_Returned)
  have r1: "updateATAGData_resume r s1 = (updateHomeKitCharacteristics (finish kvs s1))\<lparr>isUpdating := False\<rparr>"
    using resume_success [OF assms(1,2)] p1 by simp
  have r2: "updateATAGData_resume r s2 = (updateHomeKitCharacteristics (finish kvs s2))\<lparr>isUpdating := False\<rparr>"
    using resume_success [OF assms(1,3)] p2 by simp
  have f: "currentTemperature ((updateHomeKitCharacteristics p)\<lparr>isUpdating := False\<rparr>) = currentTemperature p"
    "targetTemperature ((updateHomeKitCharacteristics p)\<lparr>isUpdating := False\<rparr>) = targetTemperature p"
    "outsideTemperature ((updateHomeKitCharacteristics p)\<lparr>isUpdating := False\<rparr>) = outsideTemperature p"
    "dhwTemperature ((updateHomeKitCharacteristics p)\<lparr>isUpdating := False\<rparr>) = dhwTemperature p"
    "waterPressure ((updateHomeKitCharacteristics p)\<lparr>isUpdating := False\<rparr>) = waterPressure p"
    "flameActive ((updateHomeKitCharacteristics p)\<lparr>isUpdating := False\<rparr>) = flameActive p" for p
    by (simp_all add: updateHomeKitCharacteristics_def emit_def)
  have 1: "if field kvs ''roomTemperature'' = None
     then currentTemperature (updateATAGData_resume r s1) = currentTemperature s1
     else currentTemperature (updateATAGData_resume r s1) = currentTemperature (updateATAGData_resume r s2)"
    unfolding r1 r2 f finish_floats by (cases "field kvs ''roomTemperature''") simp_all
  have 2: "if field kvs ''targetTemperature'' = None
     then targetTemperature (updateATAGData_resume r s1) = targetTemperature s1
     else targetTemperature (updateATAGData_resume r s1) = targetTemperature (updateATAGData_resume r s2)"
    unfolding r1 r2 f finish_floats by (cases "field kvs ''targetTemperature''") simp_all
  have 3: "if field kvs ''outsideTemperature'' = None
     then outsideTemperature (updateATAGData_resume r s1) = outsideTemperature s1
     else outsideTemperature (updateATAGData_resume r s1) = outsideTemperature (updateATAGData_resume r s2)"
    unfolding r1 r2 f finish_floats by (cases "field kvs ''outsideTemperature''") simp_all
  have 4: "if field kvs ''dhwWaterTemperature'' = None
     then dhwTemperature (updateATAGData_resume r s1) = dhwTemperature s1
     else dhwTemperature (updateATAGData_resume r s1) = dhwTemperature (updateATAGData_resume r s2)"
    unfolding r1 r2 f finish_floats by (cases "field kvs ''dhwWaterTemperature''") simp_all
  have 5: "if field kvs ''chWaterPressure'' = None
     then waterPressure (updateATAGData_resume r s1) = waterPressure s1
     else waterPressure (updateATAGData_resume r s1) = waterPressure (updateATAGData_resume r s2)"
    unfolding r1 r2 f finish_floats by (cases "field kvs ''chWaterPressure''") simp_all
  have 6: "if field kvs ''flameStatus'' = None
     then flameActive (updateATAGData_resume r s1) = flameActive s1
     else flameActive (updateATAGData_resume r s1) = flameActive (updateATAGData_resume r s2)"
    unfolding r1 r2 f finish_flame by (cases "field kvs ''flameStatus''") simp_all
  show ?thesis using m 1 2 3 4 5 6 by blast
qed

theorem poll_overwrites_present_fields_witness:
  "settle sample_poll = Inr sample_output \<and>
   parseATAGData sample_output polling = Returned (finish sample_props polling) \<and>
   parseATAGData sample_output idle = Returned (finish sample_props idle) \<and>
   currentTemperature (updateATAGData_resume sample_poll polling)
     = currentTemperature (updateATAGData_resume sample_poll idle) \<and>
   targetTemperature (updateATAGData_resume sample_poll polling) = targetTemperature polling"
proof -
  have 1: "settle sample_poll = Inr sample_output" by (simp add: settle_def sample_poll_def)
  have 2: "parseATAGData sample_output polling = Returned (finish sample_props polling)"
    by (rule sample_returns)
  have 3: "parseATAGData sample_output idle = Returned (finish sample_props idle)"
    by (rule sample_returns)
  from poll_overwrites_present_fields [OF 1 2 3] obtain m kvs
    where m: "json_match sample_output = Some m" "JSON_parse m = Some (JObj kvs)"
      and f: "if field kvs ''roomTemperature'' = None
              then currentTemperature (updateATAGData_resume sample_poll polling) = currentTemperature polling
              else currentTemperature (updateATAGData_resume sample_poll polling)
                   = currentTemperature (updateATAGData_resume sample_poll idle)"
             "if field kvs ''targetTemperature'' = None
              then targetTemperature (updateATAGData_resume sample_poll polling) = targetTemperature polling
              else targetTemperature (updateATAGData_resume sample_poll polling)
                   = targetTemperature (updateATAGData_resume sample_poll idle)"
    by blast
  have "kvs = sample_props" using m sample_match sample_parse by simp
  then show ?thesis using 1 2 3 f by (simp add: sample_fields)
qed

text \<open>
  C7 as stated fails on the sample output, which has no \<open>targetTemperature\<close>: the poll
  succeeds (it publishes the characteristics) and the target temperature after it is
  the one from before the poll, 20 in one case and 25 in the other.
\<close>

theorem poll_retains_absent_fields_counterexample:
  "trace (updateATAGData_resume sample_poll polling) =
     trace polling @
     [Log Debug (UpdatedData (Fin (43 / 2)) (Fin 20) OFF),
      Publish Thermostat CurrentTemperature (Num (Fin (43 / 2))),
      Publish Thermostat TargetTemperature (Num (Fin 20)),
      Publish Thermostat CurrentHeatingCoolingState (Heating OFF),
      Publish PressureSensor LeakDetected (Leak LEAK_DETECTED)] \<and>
   targetTemperature (updateATAGData_resume sample_poll polling) = Fin 20 \<and>
   targetTemperature (updateATAGData_resume sample_poll (polling\<lparr>targetTemperature := Fin 25\<rparr>)) = Fin 25"
proof -
  have 1: "settle sample_poll = Inr sample_output" by (simp add: settle_def sample_poll_def)
  have 2: "updateATAGData_resume sample_poll s
           = (updateHomeKitCharacteristics (finish sample_props s))\<lparr>isUpdating := False\<rparr>" for s
    using resume_success [OF 1 sample_returns] .
  show ?thesis
    unfolding 2
    by (simp add: updateHomeKitCharacteristics_def emit_def log_def finish_def set_flame_def
        assigned_def sample_fields sample_pressure leak_value_def low_pressure_def polling_def r64)
qed

section \<open>Setting the target temperature, and the configuration\<close>

text \<open>
  C6. When the process of \<open>setTargetTemperature(v)\<close> fails (its promise is rejected: an
  exit code other than 0, or a spawn error), the call logs the error and throws a
  HapStatusError with SERVICE_COMMUNICATION_FAILURE, and \<open>targetTemperature\<close> is
  what it was. When the process succeeds, the call returns with \<open>targetTemperature\<close> set
  to \<open>v\<close>. Spawning the process does not change \<open>targetTemperature\<close>.
\<close>

theorem setTargetTemperature_outcome:
  "(case settle r of
      Inl e \<Rightarrow>
        setTargetTemperature_resume v r s =
          Threw (HapStatusError SERVICE_COMMUNICATION_FAILURE) (log Err (SetTargetFailed e) s) \<and>
        targetTemperature (log Err (SetTargetFailed e) s) = targetTemperature s
    | Inr out \<Rightarrow>
        setTargetTemperature_resume v r s =
          Returned (emit [Publish Thermostat TargetTemperature (Num v), SetTimeout 2000]
                      (s\<lparr>targetTemperature := v\<rparr>)) \<and>
        targetTemperature (emit [Publish Thermostat TargetTemperature (Num v), SetTimeout 2000]
                      (s\<lparr>targetTemperature := v\<rparr>)) = v) \<and>
   targetTemperature (setTargetTemperature v s) = targetTemperature s"
  by (simp add: setTargetTemperature_resume_def setTargetTemperature_def executeATAGCommand_def
      log_def emit_def Let_def split: sum.splits)

theorem setTargetTemperature_outcome_witness:
  "setTargetTemperature_resume (Fin 21) failed_exit idle =
     Threw (HapStatusError SERVICE_COMMUNICATION_FAILURE)
       (log Err (SetTargetFailed (CommandFailed (Some 1) (js ''Connection refused''))) idle) \<and>
   targetTemperature (log Err (SetTargetFailed (CommandFailed (Some 1) (js ''Connection refused''))) idle)
     = Fin 20 \<and>
   setTargetTemperature_resume (Fin 21) sample_poll idle =
     Returned (emit [Publish Thermostat TargetTemperature (Num (Fin 21)), SetTimeout 2000]
                 (idle\<lparr>targetTemperature := Fin 21\<rparr>))"
proof -
  have 1: "settle failed_exit = Inl (CommandFailed (Some 1) (js ''Connection refused''))"
    by (simp add: settle_def failed_exit_def)
  have 2: "settle sample_poll = Inr sample_output"
    by (simp add: settle_def sample_poll_def)
  have 3: "targetTemperature idle = Fin 20" by (simp add: idle_def polling_def)
  show ?thesis
    using setTargetTemperature_outcome [where r = failed_exit and v = "Fin 21" and s = idle]
      setTargetTemperature_outcome [where r = sample_poll and v = "Fin 21" and s = idle] 3
    by (simp add: 1 2)
qed

text \<open>
  C8. The constructor throws \<open>Host is required\<close> exactly when the mode is \<open>local\<close> and
  no host is configured, and \<open>Email and password are required\<close> exactly when the mode
  is \<open>remote\<close> and the email or the password is missing; its validation throws nothing
  else. The mode is \<open>config.mode || 'local'\<close>, so it is \<open>local\<close> when none is given. A
  value is configured when it is truthy: there, and not \<open>null\<close>, \<open>false\<close>, 0 or the empty
  string.
\<close>

theorem constructor_validation:
  "(constructor c j = Inl HostRequired \<longleftrightarrow>
      or_default (cfg_mode c) (JStr (js ''local'')) = JStr (js ''local'') \<and> \<not> truthy_opt (cfg_host c)) \<and>
   (constructor c j = Inl CredentialsRequired \<longleftrightarrow>
      or_default (cfg_mode c) (JStr (js ''local'')) = JStr (js ''remote'') \<and>
      (\<not> truthy_opt (cfg_email c) \<or> \<not> truthy_opt (cfg_password c))) \<and>
   (\<forall>e. constructor c j = Inl e \<longrightarrow> e = HostRequired \<or> e = CredentialsRequired) \<and>
   (cfg_mode c = None \<longrightarrow> or_default (cfg_mode c) (JStr (js ''local'')) = JStr (js ''local''))"
proof -
  have d: "js ''local'' \<noteq> js ''remote''" by (simp add: js_def)
  show ?thesis
    using d by (auto simp: constructor_def Let_def or_default_def split: if_splits)
qed

text \<open>A configuration for remote mode with an empty password.\<close>

definition cfg_remote :: config where
  "cfg_remote =
     \<lparr> cfg_name = None, cfg_mode = Some (JStr (js ''remote'')), cfg_host = None,
       cfg_email = Some (JStr (js ''user@example.com'')), cfg_password = Some (JStr []),
       cfg_jarPath = None, cfg_javaPath = None,
       cfg_pollInterval = None, cfg_timeout = None, cfg_temperatureDisplayUnits = None,
       cfg_minTemp = None, cfg_maxTemp = None, cfg_exposeOutsideTemperature = None,
       cfg_exposeWaterPressure = None, cfg_exposeDHWTemperature = None \<rparr>"

theorem constructor_validation_witness:
  "constructor (cfg_local\<lparr>cfg_host := None\<rparr>) True = Inl HostRequired \<and>
   constructor cfg_remote True = Inl CredentialsRequired \<and>
   constructor cfg_local True = Inr polling \<and>
   constructor (cfg_remote\<lparr>cfg_mode := Some (JStr (js ''cloud''))\<rparr>) True \<noteq> Inl HostRequired \<and>
   constructor (cfg_remote\<lparr>cfg_mode := Some (JStr (js ''cloud''))\<rparr>) True \<noteq> Inl CredentialsRequired"
proof -
  have 1: "cfg_mode (cfg_local\<lparr>cfg_host := None\<rparr>) = None" "cfg_host (cfg_local\<lparr>cfg_host := None\<rparr>) = None"
    by (simp_all add: cfg_local_def)
  have 2: "cfg_mode cfg_remote = Some (JStr (js ''remote''))" "cfg_password cfg_remote = Some (JStr [])"
    by (simp_all add: cfg_remote_def)
  have 3: "cfg_mode (cfg_remote\<lparr>cfg_mode := Some (JStr (js ''cloud''))\<rparr>) = Some (JStr (js ''cloud''))"
    by simp
  have 4: "js ''cloud'' \<noteq> js ''local''" "js ''cloud'' \<noteq> js ''remote''" "js ''remote'' \<noteq> []"
    "js ''cloud'' \<noteq> []"
    by (simp_all add: js_def)
  show ?thesis
    using constructor_validation [of "cfg_local\<lparr>cfg_host := None\<rparr>" True]
      constructor_validation [of cfg_remote True]
      constructor_validation [of "cfg_remote\<lparr>cfg_mode := Some (JStr (js ''cloud''))\<rparr>" True]
      constructor_cfg_local
    by (simp add: 1 2 3 4 or_default_def truthy_opt_def)
qed

section \<open>The leak sensor\<close>

text \<open>The values of \<open>LeakDetected\<close> that a list of effects publishes.\<close>

definition leak_reports :: "event list \<Rightarrow> cvalue list" where
  "leak_reports es =
     concat (map (\<lambda>e. case e of Publish sv ch v \<Rightarrow> if ch = LeakDetected then [v] else [] | _ \<Rightarrow> []) es)"

text \<open>
  C10. Read through its \<open>onGet\<close> handler, the leak sensor is LEAK_DETECTED exactly when
  \<open>waterPressure < 1.0\<close> and LEAK_NOT_DETECTED otherwise. When the characteristics are
  republished, and so after a successful poll, the one value of \<open>LeakDetected\<close> that is
  published, if the sensor is exposed, is that same function of the water pressure then
  stored.
\<close>

theorem leak_sensor:
  "fst (onGet_LeakDetected s) =
     (if num_lt (waterPressure s) (Fin 1) then LEAK_DETECTED else LEAK_NOT_DETECTED) \<and>
   leak_reports (drop (length (trace s)) (trace (updateHomeKitCharacteristics s))) =
     (if waterPressureService s
      then [Leak (if num_lt (waterPressure s) (Fin 1) then LEAK_DETECTED else LEAK_NOT_DETECTED)]
      else []) \<and>
   (\<forall>out p. settle r = Inr out \<and> parseATAGData out s = Returned p \<longrightarrow>
      leak_reports (drop (length (trace p)) (trace (updateATAGData_resume r s))) =
        (if waterPressureService s
         then [Leak (if num_lt (waterPressure (updateATAGData_resume r s)) (Fin 1)
                     then LEAK_DETECTED else LEAK_NOT_DETECTED)]
         else []))"
proof -
  have 1: "fst (onGet_LeakDetected s) =
     (if num_lt (waterPressure s) (Fin 1) then LEAK_DETECTED else LEAK_NOT_DETECTED)" for s
    by (simp add: onGet_LeakDetected_def leak_value_def low_pressure_def)
  have 2: "leak_reports (drop (length (trace s)) (trace (updateHomeKitCharacteristics s))) =
     (if waterPressureService s
      then [Leak (if num_lt (waterPressure s) (Fin 1) then LEAK_DETECTED else LEAK_NOT_DETECTED)]
      else [])" for s
    by (simp add: updateHomeKitCharacteristics_def emit_def leak_reports_def leak_value_def
        low_pressure_def)
  have 3: "leak_reports (drop (length (trace p)) (trace (updateATAGData_resume r s))) =
        (if waterPressureService s
         then [Leak (if num_lt (waterPressure (updateATAGData_resume r s)) (Fin 1)
                     then LEAK_DETECTED else LEAK_NOT_DETECTED)]
         else [])" if h: "settle r = Inr out" "parseATAGData out s = Returned p" for out p
  proof -
    from h(2) obtain kvs where p: "p = finish kvs s" by (auto simp only: parseATAGData_Returned)
    have sv: "waterPressureService p = waterPressureService s"
      unfolding p by (simp add: finish_def set_flame_def assigned_def log_def emit_def Let_def
          split: option.splits)
    have tr: "trace (updateATAGData_resume r s) = trace (updateHomeKitCharacteristics p)"
      and wp: "waterPressure (updateATAGData_resume r s) = waterPressure p"
      by (simp_all add: resume_success [OF h] updateHomeKitCharacteristics_def emit_def)
    show ?thesis unfolding tr wp using 2 [of p] sv by simp
  qed
  show ?thesis using 1 2 3 by blast
qed

theorem leak_sensor_witness:
  "fst (onGet_LeakDetected polling) = LEAK_DETECTED \<and>
   fst (onGet_LeakDetected (polling\<lparr>waterPressure := Fin (3 / 2)\<rparr>)) = LEAK_NOT_DETECTED \<and>
   fst (onGet_LeakDetected (polling\<lparr>waterPressure := Fin 1\<rparr>)) = LEAK_NOT_DETECTED \<and>
   leak_reports (drop (length (trace (finish sample_props polling)))
                      (trace (updateATAGData_resume sample_poll polling))) = [Leak LEAK_DETECTED]"
proof -
  have 1: "settle sample_poll = Inr sample_output" by (simp add: settle_def sample_poll_def)
  have 2: "parseATAGData sample_output polling = Returned (finish sample_props polling)"
    by (rule sample_returns)
  have 3: "waterPressure (updateATAGData_resume sample_poll polling)
           = Fin (8106479329266893 / 9007199254740992)"
    by (simp add: resume_success [OF 1 2] updateHomeKitCharacteristics_def emit_def finish_floats
        sample_fields sample_pressure)
  have 4: "waterPressureService polling" "waterPressure polling = Fin 0" by (simp_all add: polling_def)
  show ?thesis
    using leak_sensor [of polling sample_poll]
      leak_sensor [of "polling\<lparr>waterPressure := Fin (3 / 2)\<rparr>" sample_poll]
      leak_sensor [of "polling\<lparr>waterPressure := Fin 1\<rparr>" sample_poll] 1 2
    by (simp add: 3 4)
qed

section \<open>Processes in flight\<close>

text \<open>The number of polls in flight.\<close>

definition polls :: "accessory \<Rightarrow> nat" where
  "polls s = length (filter (\<lambda>x. x = PollJob) (inflight s))"

lemma and_then_frame:
  assumes "inflight (state_of r) = q \<and> isUpdating (state_of r) = b"
    and "\<And>s1. inflight s1 = q \<and> isUpdating s1 = b \<Longrightarrow>
               inflight (state_of (f s1)) = q \<and> isUpdating (state_of (f s1)) = b"
  shows "inflight (state_of (and_then r f)) = q \<and> isUpdating (state_of (and_then r f)) = b"
  using assms by (cases r) (auto simp: and_then_def)

lemma set_float_frame:
  assumes "\<And>x a. inflight (upd x a) = inflight a \<and> isUpdating (upd x a) = isUpdating a"
    and "inflight s = q \<and> isUpdating s = b"
  shows "inflight (state_of (set_float kvs k upd s)) = q \<and>
         isUpdating (state_of (set_float kvs k upd s)) = b"
  using assms by (auto simp: set_float_def split: option.splits sum.splits)

lemma set_flame_frame:
  "inflight (set_flame kvs s) = inflight s \<and> isUpdating (set_flame kvs s) = isUpdating s"
  by (simp add: set_flame_def Let_def split: option.splits)

lemma parse_body_frame:
  "inflight (state_of (parse_body out s)) = inflight s \<and>
   isUpdating (state_of (parse_body out s)) = isUpdating s"
proof (cases "json_match out")
  case None
  then show ?thesis by (simp add: parse_body_def)
next
  case (Some m)
  show ?thesis
  proof (cases "JSON_parse m")
    case None
    then show ?thesis using Some by (simp add: parse_body_def)
  next
    case d: (Some d)
    show ?thesis
    proof (cases "props_of d")
      case None
      then show ?thesis using Some d by (simp add: parse_body_def)
    next
      case kvs: (Some kvs)
      show ?thesis
        unfolding parse_body_def Some d kvs option.case
        by (intro and_then_frame set_float_frame)
           (simp_all add: set_flame_frame log_def emit_def Let_def)
    qed
  qed
qed

lemma parseATAGData_frame:
  "inflight (state_of (parseATAGData out s)) = inflight s \<and>
   isUpdating (state_of (parseATAGData out s)) = isUpdating s"
  using parse_body_frame [of out s]
  by (cases "parse_body out s") (simp_all add: parseATAGData_def log_def emit_def)

lemma updateATAGData_resume_frame:
  "inflight (updateATAGData_resume r s) = inflight s \<and> \<not> isUpdating (updateATAGData_resume r s)"
proof (cases "settle r")
  case (Inl e)
  then show ?thesis by (simp add: updateATAGData_resume_def log_def emit_def)
next
  case (Inr out)
  show ?thesis
    using parseATAGData_frame [of out s] Inr
    by (cases "parseATAGData out s")
       (simp_all add: updateATAGData_resume_def log_def emit_def updateHomeKitCharacteristics_def)
qed

lemma polls_updateATAGData:
  "polls (updateATAGData s) = (if isUpdating s then polls s else Suc (polls s)) \<and>
   isUpdating (updateATAGData s)"
  by (simp add: updateATAGData_def executeATAGCommand_def polls_def log_def emit_def Let_def)

lemma filter_remove_nth:
  assumes "n < length xs"
  shows "length (filter P (take n xs @ drop (Suc n) xs)) =
         length (filter P xs) - (if P (xs ! n) then 1 else 0)"
proof -
  have "length (filter P xs) = length (filter P (take n xs @ xs ! n # drop (Suc n) xs))"
    using id_take_nth_drop [OF assms] by simp
  then show ?thesis by simp
qed

lemma fire_polls:
  assumes inv: "polls s = (if isUpdating s then 1 else 0)" and f: "fire i s = Some s'"
  shows "polls s' = (if isUpdating s' then 1 else 0)"
proof (cases i)
  case Tick
  then show ?thesis using inv f polls_updateATAGData [of s] by (auto simp: fire_def)
next
  case (SetTemperature v)
  then show ?thesis
    using inv f
    by (auto simp: fire_def setTargetTemperature_def executeATAGCommand_def polls_def log_def
        emit_def Let_def)
next
  case (SetState v)
  let ?s = "(log Info (SettingTargetState v) s)\<lparr>targetHeatingCoolingState := v\<rparr>"
  have "polls ?s = polls s" "isUpdating ?s = isUpdating s"
    by (simp_all add: polls_def log_def emit_def)
  then show ?thesis using SetState inv f polls_updateATAGData [of ?s] by (auto simp: fire_def)
next
  case (SetUnits v)
  then show ?thesis using inv f by (auto simp: fire_def polls_def)
next
  case (Ended n r)
  with f have n: "n < length (inflight s)" by (auto simp: fire_def split: if_splits)
  let ?s1 = "s\<lparr>inflight := take n (inflight s) @ drop (Suc n) (inflight s)\<rparr>"
  have p1: "polls ?s1 = polls s - (if inflight s ! n = PollJob then 1 else 0)"
    using filter_remove_nth [OF n, of "\<lambda>x. x = PollJob"] by (simp add: polls_def)
  show ?thesis
  proof (cases "inflight s ! n")
    case PollJob
    then have s': "s' = updateATAGData_resume r ?s1"
      using f Ended n by (simp add: fire_def Let_def)
    have "polls s \<le> 1" using inv by (simp split: if_splits)
    then have "polls ?s1 = 0" using p1 PollJob by simp
    then show ?thesis
      using updateATAGData_resume_frame [of r ?s1] unfolding s' by (simp add: polls_def)
  next
    case (SetJob v)
    then have "s' = state_of (setTargetTemperature_resume v r ?s1) \<or>
               (\<exists>e. s' = emit [Fault e] (state_of (setTargetTemperature_resume v r ?s1)))"
      using f Ended n by (auto simp: fire_def Let_def split: outcome.splits)
    moreover have "polls (state_of (setTargetTemperature_resume v r ?s1)) = polls ?s1"
      "isUpdating (state_of (setTargetTemperature_resume v r ?s1)) = isUpdating s"
      by (simp_all add: setTargetTemperature_resume_def polls_def log_def emit_def split: sum.splits)
    ultimately show ?thesis using p1 SetJob inv by (auto simp: polls_def emit_def)
  qed
qed

lemma constructor_polls:
  assumes "constructor c j = Inr s"
  shows "polls s = 1 \<and> isUpdating s"
  using assms
  by (auto simp: constructor_def Let_def startPolling_def updateATAGData_def
      executeATAGCommand_def polls_def log_def emit_def split: if_splits)

text \<open>
  C5, as amended. In every reachable state at most one process of a poll is in flight,
  and one is in flight exactly when \<open>isUpdating\<close> is true: the flag guards
  \<open>updateATAGData\<close>. \<open>setTargetTemperature\<close> does not read the flag, so the processes
  it spawns are not bounded by it.
\<close>

theorem one_poll_in_flight:
  assumes "reachable c j s"
  shows "polls s = (if isUpdating s then 1 else 0) \<and> polls s \<le> 1"
proof -
  have "polls s = (if isUpdating s then 1 else 0)"
    using assms
  proof (induction rule: reachable.induct)
    case (constructed c j s)
    then show ?case using constructor_polls by simp
  next
    case (fired c j s i s')
    then show ?case using fire_polls by blast
  qed
  then show ?thesis by simp
qed

text \<open>The accessory of \<open>cfg_local\<close> after the host sets the target temperature to 21.\<close>

definition setting :: accessory where
  "setting = setTargetTemperature (Fin 21) (log Info (SettingTargetTemperature (Fin 21)) polling)"

lemma reachable_setting: "reachable cfg_local True setting"
proof -
  have "reachable cfg_local True polling"
    using constructor_cfg_local by (rule constructed)
  moreover have "fire (SetTemperature (Fin 21)) polling = Some setting"
    by (simp add: fire_def setting_def)
  ultimately show ?thesis by (rule fired)
qed

text \<open>
  C5 as stated fails in that state: the first poll has not ended, the process that sets
  the temperature has been spawned beside it, and two processes are in flight.
\<close>

theorem two_processes_counterexample:
  "reachable cfg_local True setting \<and>
   inflight setting = [PollJob, SetJob (Fin 21)] \<and>
   isUpdating setting \<and>
   filter (\<lambda>e. case e of Spawn _ \<Rightarrow> True | _ \<Rightarrow> False) (trace setting) =
     [Spawn poll_args, Spawn (poll_args @ [Flag ''-t'', NumStr (Fin 21)])]"
  using reachable_setting
  by (simp add: setting_def setTargetTemperature_def executeATAGCommand_def command_args_def
      log_def emit_def polling_def poll_args_def Let_def)

theorem one_poll_in_flight_witness:
  "reachable cfg_local True setting \<and> polls setting = 1 \<and> isUpdating setting"
proof -
  have "isUpdating setting"
    by (simp add: setting_def setTargetTemperature_def executeATAGCommand_def log_def emit_def
        polling_def Let_def)
  then show ?thesis using reachable_setting one_poll_in_flight [OF reachable_setting] by simp
qed

end
